theory Spec2Isabelle
  imports Main "HOL-Library.AList"
begin

section \<open>JavaScript string primitives\<close>

text \<open>
  Strings are lists of code units. The sources only inspect the ASCII characters dot,
  newline and backslash and compare whole strings, so a \<^typ>\<open>char\<close> stands for one code unit.
\<close>

definition newline :: char where
  "newline = CHR 0x0A"

text \<open>
  \<^verbatim>\<open>s.lastIndexOf(c, fromIndex)\<close> for a one-character search string: the start position is
  \<^verbatim>\<open>fromIndex\<close> clamped to \<^verbatim>\<open>[0, s.length]\<close>, the result is the largest index not above it that
  holds \<^verbatim>\<open>c\<close>, or \<^verbatim>\<open>-1\<close>.
\<close>

fun lastIndexFrom :: "string \<Rightarrow> char \<Rightarrow> nat \<Rightarrow> int" where
  "lastIndexFrom s c 0 = (if 0 < length s \<and> s ! 0 = c then 0 else - 1)"
| "lastIndexFrom s c (Suc k) =
     (if Suc k < length s \<and> s ! Suc k = c then int (Suc k) else lastIndexFrom s c k)"

definition lastIndexOf :: "string \<Rightarrow> char \<Rightarrow> int \<Rightarrow> int" where
  "lastIndexOf s c fromIndex =
     lastIndexFrom s c (nat (min (max fromIndex 0) (int (length s))))"

text \<open>
  \<^verbatim>\<open>s.substring(a, b)\<close>: both indices are clamped to \<^verbatim>\<open>[0, s.length]\<close> (so \<^verbatim>\<open>-1\<close> counts as
  \<^verbatim>\<open>0\<close>) and swapped when out of order.
\<close>

definition substring :: "string \<Rightarrow> int \<Rightarrow> int \<Rightarrow> string" where
  "substring s a b =
     (let n = int (length s);
          a' = min (max a 0) n;
          b' = min (max b 0) n;
          lo = min a' b';
          hi = max a' b'
      in take (nat (hi - lo)) (drop (nat lo) s))"

text \<open>
  \<^verbatim>\<open>s.substr(start)\<close>: a negative start counts from the end and stops at the beginning.
\<close>

definition substr :: "string \<Rightarrow> int \<Rightarrow> string" where
  "substr s start =
     (let n = int (length s);
          st = (if start < 0 then max (n + start) 0 else min start n)
      in drop (nat st) s)"

section \<open>Project: path helpers\<close>

text \<open>
  \<^verbatim>\<open>getOriginalName\<close> is \<^verbatim>\<open>filename.replace(/(\.d\.ts|\.js|\.js.map)$/, '.ts')\<close>. The
  pattern is anchored at the end of the input and has no global flag: the leftmost position
  from which one alternative reaches the end is replaced. The dot of the third alternative is
  not escaped and matches any code unit that is not a line terminator (of JavaScript's four
  line terminators, the two in the 8-bit range).
\<close>

definition lineTerminator :: "char \<Rightarrow> bool" where
  "lineTerminator c = (c = CHR 0x0A \<or> c = CHR 0x0D)"

definition suffixMatch :: "string \<Rightarrow> bool" where
  "suffixMatch s =
     (s = ''.d.ts'' \<or> s = ''.js'' \<or>
      (length s = 7 \<and> take 3 s = ''.js'' \<and> \<not> lineTerminator (s ! 3) \<and> drop 4 s = ''map''))"

fun getOriginalName :: "string \<Rightarrow> string" where
  "getOriginalName [] = []"
| "getOriginalName (c # cs) =
     (if suffixMatch (c # cs) then ''.ts'' else c # getOriginalName cs)"

definition normalizePath :: "string \<Rightarrow> string" where
  "normalizePath p = map (\<lambda>c. if c = CHR 0x5C then CHR ''/'' else c) p"

text \<open>
  \<^verbatim>\<open>removeSourceMapComment\<close>: look for the newline before the final one and keep what
  precedes it, followed by a newline.
\<close>

definition removeSourceMapComment :: "string \<Rightarrow> string" where
  "removeSourceMapComment content =
     (let index = lastIndexOf content newline (int (length content) - 2)
      in substring content 0 index @ [newline])"

section \<open>Project: data model\<close>

text \<open>
  The source map carried by a pipeline file is an opaque object. \<^verbatim>\<open>sourcemapApply(file, map)\<close>
  of the external package merges a generated map into the file's map; the embedding records
  the call on the file.
\<close>

datatype MapObject = Inbound string | Applied "MapObject option" string

record File =
  path :: string
  contents :: string
  cwd :: string
  base :: string
  sourceMap :: "MapObject option"

definition sourcemapApply :: "File \<Rightarrow> string \<Rightarrow> File" where
  "sourcemapApply f m = f\<lparr>sourceMap := Some (Applied (sourceMap f) m)\<rparr>"

text \<open>
  Entries of \<^verbatim>\<open>currentFiles\<close> always carry their pipeline file (the class comment says so,
  and \<^verbatim>\<open>addFile\<close> is the only writer), so the field \<^verbatim>\<open>file\<close> (here \<open>gulpFile\<close>) is a plain field.
\<close>

record FileData =
  gulpFile :: File
  content :: string

record SourceFile =
  filename :: string
  getLineAndCharacterFromPosition :: "nat \<Rightarrow> nat \<times> nat"
  referencedFiles :: "string list"

text \<open>
  A diagnostic of the toolchain. Diagnostics that are not tied to a source file (errors in
  the options, missing global types) come without \<^verbatim>\<open>file\<close>, hence the option.
\<close>

record Diagnostic =
  dfile :: "SourceFile option"
  start :: nat
  code :: nat
  messageText :: string

record Error =
  name :: string
  message :: string

datatype JsError = TypeError

text \<open>
  The objects \<^verbatim>\<open>currentFiles\<close> and \<^verbatim>\<open>host.output\<close> are enumerated with \<^verbatim>\<open>for ... in\<close>, so
  they are association lists in insertion order; an assignment to an existing key keeps its
  position (\<^const>\<open>AList.update\<close>). Their keys are file paths: the lookups that matter are
  made with names that contain a dot, so no inherited property of a JavaScript object is
  ever found, and the tables \<^verbatim>\<open>sourcemaps\<close> and \<^verbatim>\<open>done\<close> are a map and a set.
\<close>

record Project =
  currentFiles :: "(string \<times> FileData) list"
  additionalFiles :: "(string \<times> FileData) list"
  noExternalResolve :: bool
  sortOutput :: bool

definition reset :: "Project \<Rightarrow> Project" where
  "reset p = p\<lparr>currentFiles := [], additionalFiles := []\<rparr>"

definition getFileDataFromGulpFile :: "File \<Rightarrow> FileData" where
  "getFileDataFromGulpFile f = \<lparr>gulpFile = f, content = contents f\<rparr>"

definition addFile :: "File \<Rightarrow> Project \<Rightarrow> Project" where
  "addFile f p =
     p\<lparr>currentFiles :=
         AList.update (normalizePath (path f)) (getFileDataFromGulpFile f) (currentFiles p)\<rparr>"

definition getCurrentFilenames :: "Project \<Rightarrow> string list" where
  "getCurrentFilenames p = map (\<lambda>(i, d). path (gulpFile d)) (currentFiles p)"

section \<open>The toolchain as a black box\<close>

text \<open>
  What \<^verbatim>\<open>ts.createProgram\<close> returns, reduced to the answers the sources ask for. The emitter
  hands its artifacts to the host with \<^verbatim>\<open>writeFile\<close>, in the order of \<^verbatim>\<open>emitWrites\<close>.
  \<^verbatim>\<open>getSourceFile\<close> is a lookup and may find nothing.
\<close>

record Program =
  getDiagnostics :: "Diagnostic list"
  checkerGetDiagnostics :: "Diagnostic list"
  emitFilesErrors :: "Diagnostic list"
  emitWrites :: "(string \<times> string) list"
  getSourceFile :: "string \<rightharpoonup> SourceFile"

text \<open>
  Modelled from the spec: the host adapter (\<^verbatim>\<open>host.ts\<close>) is not among the sources. Its
  \<^verbatim>\<open>output\<close> table is empty when the host is constructed and \<^verbatim>\<open>writeFile\<close> stores the content
  under the file name.
\<close>

definition hostOutput :: "(string \<times> string) list \<Rightarrow> (string \<times> string) list" where
  "hostOutput writes = fold (\<lambda>(k, v). AList.update k v) writes []"

datatype ToolchainCall =
  CreateProgram "string list"
| ProgramGetDiagnostics
| GetTypeChecker
| CheckerGetDiagnostics
| CheckerEmitFiles

text \<open>The external helpers \<^verbatim>\<open>path.relative\<close> and \<^verbatim>\<open>gutil.colors.red\<close>.\<close>

record Libs =
  relative :: "string \<Rightarrow> string \<Rightarrow> string"
  red :: "string \<Rightarrow> string"

section \<open>Project.getError\<close>

fun showNat :: "nat \<Rightarrow> string" where
  "showNat n =
     (if n < 10 then [char_of (48 + n)]
      else showNat (n div 10) @ [char_of (48 + n mod 10)])"

text \<open>
  \<^verbatim>\<open>getError\<close> reads \<^verbatim>\<open>info.file.filename\<close> first, with no test of \<^verbatim>\<open>info.file\<close>: on a
  diagnostic without a file the property access throws a \<^verbatim>\<open>TypeError\<close>.
\<close>

definition getError :: "Libs \<Rightarrow> Project \<Rightarrow> Diagnostic \<Rightarrow> JsError + Error" where
  "getError libs p info =
     (case dfile info of
        None \<Rightarrow> Inl TypeError
      | Some infoFile \<Rightarrow>
          (let fname = (case map_of (currentFiles p) (getOriginalName (filename infoFile)) of
                          Some f \<Rightarrow> relative libs (cwd (gulpFile f)) (filename infoFile)
                        | None \<Rightarrow> filename infoFile);
               startPos = getLineAndCharacterFromPosition infoFile (start info)
           in Inr \<lparr>name = ''TypeScript error'',
                   message = red libs (fname @ ''('' @ showNat (fst startPos + 1) @ '','' @
                                       showNat (snd startPos + 1) @ ''): '')
                             @ showNat (code info) @ '' '' @ messageText info\<rparr>))"

text \<open>
  The loop \<^verbatim>\<open>for (...) errorCallback(this.getError(errors[i]))\<close>: the errors handed to the
  callback so far, and the exception that ended the loop, if any.
\<close>

fun reportErrors ::
    "Libs \<Rightarrow> Project \<Rightarrow> Diagnostic list \<Rightarrow> Error list \<Rightarrow> Error list \<times> JsError option" where
  "reportErrors libs p [] called = (called, None)"
| "reportErrors libs p (info # rest) called =
     (case getError libs p info of
        Inl e \<Rightarrow> (called, Some e)
      | Inr err \<Rightarrow> reportErrors libs p rest (called @ [err]))"

section \<open>Project.compile\<close>

subsection \<open>Splitting the emitted artifacts by kind\<close>

record Collected =
  outputJS :: "File list"
  declStream :: "File list"
  sourcemaps :: "string \<rightharpoonup> string"

definition newFile :: "string \<Rightarrow> string \<Rightarrow> FileData \<Rightarrow> File" where
  "newFile fname data original =
     \<lparr>path = fname, contents = removeSourceMapComment data,
      cwd = cwd (gulpFile original), base = base (gulpFile original), sourceMap = None\<rparr>"

fun collect :: "Project \<Rightarrow> (string \<times> string) list \<Rightarrow> Collected \<Rightarrow> Collected" where
  "collect p [] acc = acc"
| "collect p ((fname, data) # rest) acc =
     (case map_of (currentFiles p) (getOriginalName fname) of
        None \<Rightarrow> collect p rest acc
      | Some original \<Rightarrow>
          if substr fname (- 3) = ''.js'' then
            collect p rest
              (acc\<lparr>outputJS := outputJS acc @
                 [(newFile fname data original)\<lparr>sourceMap := sourceMap (gulpFile original)\<rparr>]\<rparr>)
          else if substr fname (- 5) = ''.d.ts'' then
            collect p rest (acc\<lparr>declStream := declStream acc @ [newFile fname data original]\<rparr>)
          else if substr fname (- 4) = ''.map'' then
            collect p rest (acc\<lparr>sourcemaps := (sourcemaps acc)(fname \<mapsto> data)\<rparr>)
          else collect p rest acc)"

subsection \<open>Emission\<close>

text \<open>
  \<^verbatim>\<open>emit\<close> looks the map up under the original name, applies it when it is a non-empty
  string (\<^verbatim>\<open>if (map)\<close>) and pushes the file to \<^verbatim>\<open>jsStream\<close>.
\<close>

definition applyMap :: "(string \<rightharpoonup> string) \<Rightarrow> string \<Rightarrow> File \<Rightarrow> File" where
  "applyMap smaps originalName f =
     (case smaps originalName of
        None \<Rightarrow> f
      | Some m \<Rightarrow> if m \<noteq> [] then sourcemapApply f m else f)"

definition emit :: "(string \<rightharpoonup> string) \<Rightarrow> string \<Rightarrow> File \<Rightarrow> File list \<Rightarrow> File list" where
  "emit smaps originalName f js = js @ [applyMap smaps originalName f]"

text \<open>
  The state of the emission phase: the \<^verbatim>\<open>done\<close> table, what was pushed to \<^verbatim>\<open>jsStream\<close>, and
  the exception that ended the phase, if any (\<^verbatim>\<open>tsFile.referencedFiles\<close> on a name the program
  does not know).
\<close>

record EmitState =
  doneSet :: "string set"
  jsStream :: "File list"
  thrown :: "JsError option"

function sortedEmit ::
    "(string \<rightharpoonup> SourceFile) \<Rightarrow> File list \<Rightarrow> (string \<rightharpoonup> string) \<Rightarrow>
     string \<Rightarrow> File \<Rightarrow> EmitState \<Rightarrow> EmitState"
  and sortedEmitRefs ::
    "(string \<rightharpoonup> SourceFile) \<Rightarrow> File list \<Rightarrow> (string \<rightharpoonup> string) \<Rightarrow>
     string list \<Rightarrow> File list \<Rightarrow> EmitState \<Rightarrow> EmitState"
where
  "sortedEmit gsf outJS smaps originalName f st =
     (if originalName \<in> doneSet st then st
      else
        (case gsf originalName of
           None \<Rightarrow> st\<lparr>doneSet := insert originalName (doneSet st), thrown := Some TypeError\<rparr>
         | Some tsFile \<Rightarrow>
             (let st2 = sortedEmitRefs gsf outJS smaps (referencedFiles tsFile) outJS
                          (st\<lparr>doneSet := insert originalName (doneSet st)\<rparr>)
              in if thrown st2 = None
                 then st2\<lparr>jsStream := emit smaps originalName f (jsStream st2)\<rparr>
                 else st2)))"
| "sortedEmitRefs gsf outJS smaps references [] st = st"
| "sortedEmitRefs gsf outJS smaps references (other # rest) st =
     (if getOriginalName (path other) \<in> set references then
        (let st' = sortedEmit gsf outJS smaps (getOriginalName (path other)) other st
         in if thrown st' = None
            then sortedEmitRefs gsf outJS smaps references rest st'
            else st')
      else sortedEmitRefs gsf outJS smaps references rest st)"
  by pat_completeness auto

text \<open>
  Every call that does work marks a name of \<^verbatim>\<open>outputJS\<close> that was not marked before, and
  the table never shrinks: this is what bounds the recursion.
\<close>

definition originalNames :: "File list \<Rightarrow> string set" where
  "originalNames fs = (\<lambda>f. getOriginalName (path f)) ` set fs"

lemma sortedEmit_dom_done_mono:
  "sortedEmit_sortedEmitRefs_dom (Inl (gsf, outJS, smaps, n, f, st)) \<Longrightarrow>
     doneSet st \<subseteq> doneSet (sortedEmit gsf outJS smaps n f st)"
  "sortedEmit_sortedEmitRefs_dom (Inr (gsf, outJS, smaps, refs, rest, st)) \<Longrightarrow>
     doneSet st \<subseteq> doneSet (sortedEmitRefs gsf outJS smaps refs rest st)"
proof (induction gsf outJS smaps n f st and gsf outJS smaps refs rest st
       rule: sortedEmit_sortedEmitRefs.pinduct)
  case (1 gsf outJS smaps originalName f st)
  then show ?case
    by (auto simp: sortedEmit.psimps Let_def split: option.splits)
next
  case (2 gsf outJS smaps references st)
  then show ?case by (simp add: sortedEmitRefs.psimps)
next
  case (3 gsf outJS smaps references other rest st)
  then show ?case
    by (auto simp: sortedEmitRefs.psimps Let_def split: if_splits)
qed

termination sortedEmit
proof (relation "inv_image (less_than <*lex*> less_than)
    (\<lambda>x. case x of
       Inl (gsf, outJS, smaps, n, f, st) \<Rightarrow>
         (card ((insert n (originalNames outJS)) - doneSet st), 0)
     | Inr (gsf, outJS, smaps, refs, rest, st) \<Rightarrow>
         (card ((originalNames outJS \<union> originalNames rest) - doneSet st), Suc (length rest)))",
    goal_cases)
  case 1
  show ?case by (intro wf_inv_image wf_lex_prod wf_less_than)
next
  case (2 gsf outJS smaps originalName f st x2)
  have fin: "finite (insert originalName (originalNames outJS) - doneSet st)"
    by (simp add: originalNames_def)
  have "(originalNames outJS \<union> originalNames outJS) - insert originalName (doneSet st)
        \<subset> insert originalName (originalNames outJS) - doneSet st"
    using 2 by auto
  then show ?case using fin by (simp add: psubset_card_mono)
next
  case (3 gsf outJS smaps references other rest st)
  have "card (insert (getOriginalName (path other)) (originalNames outJS) - doneSet st)
        \<le> card ((originalNames outJS \<union> originalNames (other # rest)) - doneSet st)"
    by (rule card_mono) (auto simp: originalNames_def)
  then show ?case by auto
next
  case (4 gsf outJS smaps references other rest st x)
  have "doneSet st \<subseteq> doneSet x"
    using 4 sortedEmit_dom_done_mono(1) by blast
  then have "card ((originalNames outJS \<union> originalNames rest) - doneSet x)
        \<le> card ((originalNames outJS \<union> originalNames (other # rest)) - doneSet st)"
    by (intro card_mono) (auto simp: originalNames_def)
  then show ?case by auto
next
  case (5 gsf outJS smaps references other rest st)
  have "card ((originalNames outJS \<union> originalNames rest) - doneSet st)
        \<le> card ((originalNames outJS \<union> originalNames (other # rest)) - doneSet st)"
    by (intro card_mono) (auto simp: originalNames_def)
  then show ?case by auto
qed

text \<open>The two top-level loops over \<^verbatim>\<open>outputJS\<close>, with and without \<^verbatim>\<open>sortOutput\<close>.\<close>

fun sortedAll ::
    "(string \<rightharpoonup> SourceFile) \<Rightarrow> File list \<Rightarrow> (string \<rightharpoonup> string) \<Rightarrow>
     File list \<Rightarrow> EmitState \<Rightarrow> EmitState" where
  "sortedAll gsf outJS smaps [] st = st"
| "sortedAll gsf outJS smaps (f # rest) st =
     (let st' = sortedEmit gsf outJS smaps (getOriginalName (path f)) f st
      in if thrown st' = None then sortedAll gsf outJS smaps rest st' else st')"

fun emitAll :: "(string \<rightharpoonup> string) \<Rightarrow> File list \<Rightarrow> EmitState \<Rightarrow> EmitState" where
  "emitAll smaps [] st = st"
| "emitAll smaps (f # rest) st =
     emitAll smaps rest (st\<lparr>jsStream := emit smaps (getOriginalName (path f)) f (jsStream st)\<rparr>)"

subsection \<open>The whole operation\<close>

text \<open>
  What a call of \<^verbatim>\<open>compile\<close> does, in program order: the calls on the toolchain, the errors
  handed to \<^verbatim>\<open>errorCallback\<close>, the files pushed to \<^verbatim>\<open>declStream\<close>, the files pushed to
  \<^verbatim>\<open>jsStream\<close>, and the exception that left the operation, if any.
\<close>

record Result =
  calls :: "ToolchainCall list"
  reported :: "Error list"
  declPushed :: "File list"
  jsPushed :: "File list"
  raised :: "JsError option"

definition compileErrors :: "Program \<Rightarrow> Diagnostic list" where
  "compileErrors program =
     (if getDiagnostics program = []
      then checkerGetDiagnostics program @ emitFilesErrors program
      else getDiagnostics program)"

definition compileCalls :: "string list \<Rightarrow> Program \<Rightarrow> ToolchainCall list" where
  "compileCalls roots program =
     [CreateProgram roots, ProgramGetDiagnostics] @
     (if getDiagnostics program = []
      then [GetTypeChecker, CheckerGetDiagnostics, CheckerEmitFiles]
      else [])"

text \<open>
  \<^verbatim>\<open>compile\<close> creates the host itself, so \<^verbatim>\<open>host.output\<close> holds what \<^verbatim>\<open>emitFiles\<close> wrote,
  and nothing when \<^verbatim>\<open>emitFiles\<close> was not called.
\<close>

definition compileHostOutput :: "Program \<Rightarrow> (string \<times> string) list" where
  "compileHostOutput program =
     (if getDiagnostics program = [] then hostOutput (emitWrites program) else [])"

definition emptyCollected :: Collected where
  "emptyCollected = \<lparr>outputJS = [], declStream = [], sourcemaps = Map.empty\<rparr>"

definition emptyEmitState :: EmitState where
  "emptyEmitState = \<lparr>doneSet = {}, jsStream = [], thrown = None\<rparr>"

definition emitPhase :: "Project \<Rightarrow> Program \<Rightarrow> Collected \<Rightarrow> EmitState" where
  "emitPhase p program c =
     (if sortOutput p
      then sortedAll (getSourceFile program) (outputJS c) (sourcemaps c) (outputJS c)
             emptyEmitState
      else emitAll (sourcemaps c) (outputJS c) emptyEmitState)"

text \<open>
  An exception in the loop over the diagnostics leaves \<^verbatim>\<open>compile\<close> before the loop over
  \<^verbatim>\<open>host.output\<close>: nothing is pushed then.
\<close>

definition compile :: "Libs \<Rightarrow> (string list \<Rightarrow> Program) \<Rightarrow> Project \<Rightarrow> Result" where
  "compile libs createProgram p =
     (let program = createProgram (getCurrentFilenames p);
          errors = compileErrors program;
          (called, exn) = reportErrors libs p errors []
      in case exn of
           Some e \<Rightarrow>
             \<lparr>calls = compileCalls (getCurrentFilenames p) program,
              reported = called, declPushed = [], jsPushed = [], raised = Some e\<rparr>
         | None \<Rightarrow>
             (let c = collect p (compileHostOutput program) emptyCollected;
                  st = emitPhase p program c
              in \<lparr>calls = compileCalls (getCurrentFilenames p) program,
                  reported = called,
                  declPushed = declStream c,
                  jsPushed = jsStream st,
                  raised = thrown st\<rparr>))"

section \<open>ProjectCompiler.inputDone\<close>

text \<open>
  The newer compiler works against a project whose input cache, output sink and previous
  output live in modules that are not among the sources. The embedding keeps the fields
  \<^verbatim>\<open>inputDone\<close> reads, and returns the calls it makes on its collaborators, in order.
\<close>

datatype OutputFileKind = JavaScript | SourceMap | Definitions

record OutputFile =
  fileName :: string
  ocontent :: "OutputFileKind \<Rightarrow> string option"

record 'e PreviousOutput =
  errors :: "'e list"
  files :: "(string \<times> OutputFile) list"

record 'f FileCache =
  firstSourceFile :: "'f option"
  isChanged :: bool
  getFileNames :: "string list"

text \<open>
  \<^verbatim>\<open>filterSettings\<close> stands for the predicate \<^verbatim>\<open>_filter.match\<close> that the settings induce;
  \<^verbatim>\<open>None\<close> is \<^verbatim>\<open>undefined\<close>. \<^verbatim>\<open>previousOutput\<close> is the output object of the previous
  cycle and is read only on the replay path.
\<close>

record ('f, 'e) CompilerProject =
  input :: "'f FileCache"
  previousOutput :: "'e PreviousOutput"
  filterSettings :: "(string \<Rightarrow> bool) option"

datatype ('e, 'd) Effect =
  HostNew
| TsCreateProgram "string list"
| GetDiagnosticsAndEmit
| OutputError 'e
| OutputDiagnostic 'd
| OutputWrite string "string option"
| OutputFinish

text \<open>
  The toolchain of the newer compiler: for a list of root names, the diagnostics of
  \<^verbatim>\<open>tsApi.getDiagnosticsAndEmit\<close> and the host's \<^verbatim>\<open>output\<close> table afterwards.
\<close>

type_synonym 'd Toolchain = "string list \<Rightarrow> 'd list \<times> (string \<times> string) list"

definition replayFile :: "OutputFile \<Rightarrow> ('e, 'd) Effect list" where
  "replayFile f =
     [OutputWrite (fileName f @ ''.js'') (ocontent f JavaScript),
      OutputWrite (fileName f @ ''.js.map'') (ocontent f SourceMap)] @
     (case ocontent f Definitions of
        None \<Rightarrow> []
      | Some d \<Rightarrow> [OutputWrite (fileName f @ ''.d.ts'') (Some d)])"

definition replay :: "'e PreviousOutput \<Rightarrow> ('e, 'd) Effect list" where
  "replay old = map OutputError (errors old) @ concat (map (\<lambda>(k, f). replayFile f) (files old))"

definition rootFilenames :: "('f, 'e) CompilerProject \<Rightarrow> string list" where
  "rootFilenames p =
     (case filterSettings p of
        None \<Rightarrow> getFileNames (input p)
      | Some m \<Rightarrow> filter m (getFileNames (input p)))"

definition inputDone :: "'d Toolchain \<Rightarrow> ('f, 'e) CompilerProject \<Rightarrow> ('e, 'd) Effect list" where
  "inputDone ts p =
     (if firstSourceFile (input p) = None then [OutputFinish]
      else if \<not> isChanged (input p) then replay (previousOutput p)
      else
        (let roots = rootFilenames p;
             (errs, out) = ts roots
         in [HostNew, TsCreateProgram roots, GetDiagnosticsAndEmit] @
            map OutputDiagnostic errs @
            map (\<lambda>(k, v). OutputWrite k (Some v)) out @
            [OutputFinish]))"

section \<open>Observations on the calls of inputDone\<close>

text \<open>
  Projections of the list of calls: which calls reach the host or the toolchain, and the
  errors, diagnostics and writes that reach the output sink, in order. \<open>cachedArtifacts\<close>
  lists what the cache holds for one file: its JavaScript, its source map and, when present,
  its declarations, under the names the artifacts have.
\<close>

fun isToolchainEffect :: "('e, 'd) Effect \<Rightarrow> bool" where
  "isToolchainEffect HostNew = True"
| "isToolchainEffect (TsCreateProgram roots) = True"
| "isToolchainEffect GetDiagnosticsAndEmit = True"
| "isToolchainEffect e = False"

fun outputErrors :: "('e, 'd) Effect list \<Rightarrow> 'e list" where
  "outputErrors [] = []"
| "outputErrors (OutputError e # es) = e # outputErrors es"
| "outputErrors (x # es) = outputErrors es"

fun outputDiagnostics :: "('e, 'd) Effect list \<Rightarrow> 'd list" where
  "outputDiagnostics [] = []"
| "outputDiagnostics (OutputDiagnostic d # es) = d # outputDiagnostics es"
| "outputDiagnostics (x # es) = outputDiagnostics es"

fun outputWrites :: "('e, 'd) Effect list \<Rightarrow> (string \<times> string option) list" where
  "outputWrites [] = []"
| "outputWrites (OutputWrite k v # es) = (k, v) # outputWrites es"
| "outputWrites (x # es) = outputWrites es"



section \<open>Observations on compile\<close>

text \<open>
  The equation of \<^const>\<open>sortedEmit\<close> is unfolded by hand in the proofs.
\<close>

declare sortedEmit.simps [simp del]

text \<open>
  \<open>emitOf\<close> is the file as \<^verbatim>\<open>emit\<close> pushes it. A name is in progress when it is in the
  \<^verbatim>\<open>done\<close> table and its file is not pushed yet. \<open>refRel\<close> is the reference relation among the
  files that have a compiled artifact: \<open>(a, b)\<close> when the source \<open>a\<close> lists \<open>b\<close> in its
  reference directives. A list of names is \<open>dependsOrdered\<close> when every name comes after all
  names it references.
\<close>

abbreviation origName :: "File \<Rightarrow> string" where
  "origName f \<equiv> getOriginalName (path f)"

definition emitOf :: "(string \<rightharpoonup> string) \<Rightarrow> File \<Rightarrow> File" where
  "emitOf smaps g = applyMap smaps (getOriginalName (path g)) g"





text \<open>
  The loop over \<^verbatim>\<open>host.output\<close>, read artifact by artifact: the file an artifact contributes
  to \<^verbatim>\<open>outputJS\<close> and to \<^verbatim>\<open>declStream\<close>, if any. \<open>compiledCode\<close>, \<open>generatedMaps\<close> and
  \<open>emissionOf\<close> name the intermediate values of \<^verbatim>\<open>compile\<close> for a given program.
\<close>

definition jsArtifact :: "Project \<Rightarrow> string \<times> string \<Rightarrow> File option" where
  "jsArtifact p = (\<lambda>(fname, data).
     case map_of (currentFiles p) (getOriginalName fname) of
       None \<Rightarrow> None
     | Some original \<Rightarrow>
         if substr fname (- 3) = ''.js''
         then Some ((newFile fname data original)\<lparr>sourceMap := sourceMap (gulpFile original)\<rparr>)
         else None)"

definition declArtifact :: "Project \<Rightarrow> string \<times> string \<Rightarrow> File option" where
  "declArtifact p = (\<lambda>(fname, data).
     case map_of (currentFiles p) (getOriginalName fname) of
       None \<Rightarrow> None
     | Some original \<Rightarrow>
         if substr fname (- 3) \<noteq> ''.js'' \<and> substr fname (- 5) = ''.d.ts''
         then Some (newFile fname data original)
         else None)"

definition compiledCode :: "Project \<Rightarrow> Program \<Rightarrow> File list" where
  "compiledCode p program = outputJS (collect p (compileHostOutput program) emptyCollected)"

definition generatedMaps :: "Project \<Rightarrow> Program \<Rightarrow> (string \<rightharpoonup> string)" where
  "generatedMaps p program = sourcemaps (collect p (compileHostOutput program) emptyCollected)"

definition emissionOf :: "Project \<Rightarrow> Program \<Rightarrow> EmitState" where
  "emissionOf p program =
     emitPhase p program (collect p (compileHostOutput program) emptyCollected)"

text \<open>
  A diagnostic carries its file; the loop over the diagnostics completes exactly when all of
  them do.
\<close>

definition carriesFile :: "Diagnostic \<Rightarrow> bool" where
  "carriesFile d = (dfile d \<noteq> None)"





section \<open>Example inputs\<close>

definition exampleCache :: "string PreviousOutput" where
  "exampleCache =
     \<lparr>errors = [''a.ts(1,1): 2304 Cannot find name'', ''b.ts(2,5): 2322 Type mismatch''],
      files =
        [(''a'', \<lparr>fileName = ''a'',
                   ocontent = (\<lambda>k. case k of JavaScript \<Rightarrow> Some ''var a;''
                                 | SourceMap \<Rightarrow> Some ''{}''
                                 | Definitions \<Rightarrow> Some ''declare var a;'')\<rparr>),
         (''b'', \<lparr>fileName = ''b'',
                   ocontent = (\<lambda>k. case k of JavaScript \<Rightarrow> Some ''var b;''
                                 | SourceMap \<Rightarrow> Some ''{}''
                                 | Definitions \<Rightarrow> None)\<rparr>)]\<rparr>"

definition exampleToolchain :: "string Toolchain" where
  "exampleToolchain roots = ([''diagnostic''], map (\<lambda>r. (r @ ''.js'', ''compiled'')) roots)"


definition exampleLibs :: Libs where
  "exampleLibs = \<lparr>relative = (\<lambda>from to. to), red = (\<lambda>s. s)\<rparr>"

definition inputFile :: "string \<Rightarrow> File" where
  "inputFile n = \<lparr>path = n, contents = ''var x;'', cwd = ''/p'', base = ''/p/src'', sourceMap = None\<rparr>"

definition exampleProject :: "bool \<Rightarrow> Project" where
  "exampleProject inOrder =
     addFile (inputFile ''c.ts'') (addFile (inputFile ''b.ts'') (addFile (inputFile ''a.ts'')
       (reset \<lparr>currentFiles = [], additionalFiles = [], noExternalResolve = True,
               sortOutput = inOrder\<rparr>)))"

definition sourceFile :: "string \<Rightarrow> string list \<Rightarrow> SourceFile" where
  "sourceFile n refs =
     \<lparr>filename = n, getLineAndCharacterFromPosition = (\<lambda>pos. (0, pos)), referencedFiles = refs\<rparr>"

definition compiled :: "string \<Rightarrow> string" where
  "compiled body = body @ newline # ''//# sourceMappingURL=m'' @ [newline]"

definition declarations :: string where
  "declarations = ''declare var a;'' @ newline # ''declare var b;'' @ [newline]"

definition chainProgram :: Program where
  "chainProgram =
     \<lparr>getDiagnostics = [],
      checkerGetDiagnostics =
        [\<lparr>dfile = Some (sourceFile ''b.ts'' [''c.ts'']), start = 4, code = 2322,
          messageText = ''Type mismatch''\<rparr>],
      emitFilesErrors = [],
      emitWrites =
        [(''a.js'', compiled ''A''), (''a.js.map'', ''{a}''), (''a.d.ts'', declarations),
         (''b.js'', compiled ''B''), (''b.js.map'', ''{b}''),
         (''c.js'', compiled ''C''), (''x.js'', compiled ''X'')],
      getSourceFile =
        [''a.ts'' \<mapsto> sourceFile ''a.ts'' [''b.ts''],
         ''b.ts'' \<mapsto> sourceFile ''b.ts'' [''c.ts''],
         ''c.ts'' \<mapsto> sourceFile ''c.ts'' []]\<rparr>"

definition cycleProgram :: Program where
  "cycleProgram =
     \<lparr>getDiagnostics = [],
      checkerGetDiagnostics = [],
      emitFilesErrors = [],
      emitWrites = [(''a.js'', compiled ''A''), (''b.js'', compiled ''B'')],
      getSourceFile =
        [''a.ts'' \<mapsto> sourceFile ''a.ts'' [''b.ts''],
         ''b.ts'' \<mapsto> sourceFile ''b.ts'' [''a.ts'']]\<rparr>"

definition brokenProgram :: Program where
  "brokenProgram = chainProgram\<lparr>getDiagnostics :=
     [\<lparr>dfile = Some (sourceFile ''a.ts'' [''b.ts'']), start = 0, code = 1005,
       messageText = ''; expected''\<rparr>]\<rparr>"

definition inboundProject :: Project where
  "inboundProject =
     addFile ((inputFile ''a.ts'')\<lparr>sourceMap := Some (Inbound ''{in}'')\<rparr>)
       (reset \<lparr>currentFiles = [], additionalFiles = [], noExternalResolve = True,
               sortOutput = False\<rparr>)"

definition emptyProject :: "(unit, string) CompilerProject" where
  "emptyProject =
     \<lparr>input = \<lparr>firstSourceFile = None, isChanged = False, getFileNames = []\<rparr>,
      previousOutput = exampleCache, filterSettings = None\<rparr>"

definition changedProject :: "(unit, string) CompilerProject" where
  "changedProject =
     \<lparr>input = \<lparr>firstSourceFile = Some (), isChanged = True, getFileNames = [''a.ts'', ''b.ts'']\<rparr>,
      previousOutput = exampleCache, filterSettings = None\<rparr>"

text \<open>
  A program with a diagnostic that has no file, between two that have one.
\<close>

definition globalProgram :: Program where
  "globalProgram = chainProgram\<lparr>checkerGetDiagnostics :=
     [\<lparr>dfile = Some (sourceFile ''b.ts'' [''c.ts'']), start = 4, code = 2322,
       messageText = ''Type mismatch''\<rparr>,
      \<lparr>dfile = None, start = 0, code = 2318,
       messageText = ''Cannot find global type Array''\<rparr>,
      \<lparr>dfile = Some (sourceFile ''c.ts'' []), start = 0, code = 2304,
       messageText = ''Cannot find name''\<rparr>]\<rparr>"







section \<open>Stripping the source-map comment\<close>

lemma lastIndexFrom_hit:
  "k < length s \<Longrightarrow> s ! k = c \<Longrightarrow> lastIndexFrom s c k = int k"
  by (cases k) auto

lemma lastIndexFrom_skip:
  "(\<And>i. k < i \<Longrightarrow> i \<le> k + m \<Longrightarrow> i < length s \<Longrightarrow> s ! i \<noteq> c) \<Longrightarrow>
     lastIndexFrom s c (k + m) = lastIndexFrom s c k"
proof (induction m)
  case 0
  show ?case by simp
next
  case (Suc m)
  have "s ! Suc (k + m) \<noteq> c" if "Suc (k + m) < length s"
    using Suc.prems [of "Suc (k + m)"] that by auto
  then have "lastIndexFrom s c (k + Suc m) = lastIndexFrom s c (k + m)"
    by auto
  also have "\<dots> = lastIndexFrom s c k"
    using Suc.prems by (intro Suc.IH) auto
  finally show ?case .
qed

lemma lastIndexFrom_none:
  "(\<And>i. i \<le> k \<Longrightarrow> i < length s \<Longrightarrow> s ! i \<noteq> c) \<Longrightarrow> lastIndexFrom s c k = - 1"
  by (induction k) auto

lemma substring_prefix:
  "n \<le> length s \<Longrightarrow> substring s 0 (int n) = take n s"
  by (simp add: substring_def Let_def)

lemma substring_negative: "substring s 0 (- 1) = []"
  by (simp add: substring_def Let_def)

lemma removeSourceMapComment_two_lines:
  assumes "newline \<notin> set line"
  shows "removeSourceMapComment (pre @ newline # line @ [newline]) = pre @ [newline]"
proof -
  let ?s = "pre @ newline # line @ [newline]"
  have start: "nat (min (max (int (length ?s) - 2) 0) (int (length ?s)))
               = length pre + length line"
    by simp
  have skip: "lastIndexFrom ?s newline (length pre + length line)
              = lastIndexFrom ?s newline (length pre)"
  proof (rule lastIndexFrom_skip)
    fix i assume i: "length pre < i" "i \<le> length pre + length line"
    define j where "j = i - Suc (length pre)"
    have j: "i = length pre + Suc j" "j < length line"
      using i by (simp_all add: j_def)
    have "?s ! i = line ! j"
      unfolding j(1) using j(2) by (simp add: nth_append)
    moreover have "line ! j \<in> set line"
      using j by simp
    ultimately show "?s ! i \<noteq> newline" using assms by metis
  qed
  have hit: "lastIndexFrom ?s newline (length pre) = int (length pre)"
    by (rule lastIndexFrom_hit) (simp_all add: nth_append)
  have "lastIndexOf ?s newline (int (length ?s) - 2) = int (length pre)"
    unfolding lastIndexOf_def start using skip hit by simp
  moreover have "substring ?s 0 (int (length pre)) = pre"
    using substring_prefix [of "length pre" ?s] by simp
  ultimately show ?thesis
    unfolding removeSourceMapComment_def Let_def by simp
qed

lemma removeSourceMapComment_one_line:
  assumes "newline \<notin> set line"
  shows "removeSourceMapComment (line @ [newline]) = [newline]"
proof (cases line)
  case Nil
  then show ?thesis
    by (simp add: removeSourceMapComment_def lastIndexOf_def substring_def Let_def)
next
  case (Cons a as)
  let ?s = "line @ [newline]"
  have start: "nat (min (max (int (length ?s) - 2) 0) (int (length ?s))) = length as"
    using Cons by simp
  have "lastIndexFrom ?s newline (length as) = - 1"
  proof (rule lastIndexFrom_none)
    fix i assume "i \<le> length as"
    then have "i < length line" using Cons by simp
    then have "?s ! i = line ! i" "line ! i \<in> set line"
      by (simp_all add: nth_append)
    then show "?s ! i \<noteq> newline" using assms by metis
  qed
  then have "lastIndexOf ?s newline (int (length ?s) - 2) = - 1"
    unfolding lastIndexOf_def start by simp
  then show ?thesis
    unfolding removeSourceMapComment_def Let_def by (simp add: substring_negative)
qed

text \<open>
  Claim C5. A compiled artifact that ends in a comment line followed by the final newline
  loses exactly that line: when code precedes the comment, the result is the content up to
  and including the newline before the comment, unchanged; when the comment is the only
  line, only the newline is left. In both cases the result ends in a newline.
\<close>

theorem removeSourceMapComment_strips_last_line:
  "newline \<notin> set line \<Longrightarrow>
     removeSourceMapComment (pre @ newline # line @ [newline]) = pre @ [newline] \<and>
     removeSourceMapComment (line @ [newline]) = [newline]"
  by (simp add: removeSourceMapComment_two_lines removeSourceMapComment_one_line)

theorem removeSourceMapComment_strips_last_line_witness:
  "newline \<notin> set ''//# sourceMappingURL=a.js.map'' \<and>
   removeSourceMapComment
     (''var a = 1;'' @ newline # ''//# sourceMappingURL=a.js.map'' @ [newline])
     = ''var a = 1;'' @ [newline] \<and>
   removeSourceMapComment (''//# sourceMappingURL=a.js.map'' @ [newline]) = [newline]"
  using removeSourceMapComment_strips_last_line
          [of "''//# sourceMappingURL=a.js.map''" "''var a = 1;''"]
  by (simp add: newline_def)

section \<open>Replay of the previous output\<close>













lemma replayFile_effects:
  "e \<in> set (replayFile f) \<Longrightarrow> \<exists>k v. e = OutputWrite k v"
  by (auto simp: replayFile_def split: option.splits)

lemma replay_effects:
  "e \<in> set (replay old) \<Longrightarrow> (\<exists>x. e = OutputError x) \<or> (\<exists>k v. e = OutputWrite k v)"
  by (auto simp: replay_def dest: replayFile_effects)


lemma replay_no_finish: "OutputFinish \<notin> set (replay old)"
  by (auto dest: replay_effects)





section \<open>Sorted emission: invariants\<close>

lemma path_applyMap [simp]: "path (applyMap smaps n f) = path f"
  by (simp add: applyMap_def sourcemapApply_def split: option.splits)

lemma path_emitOf [simp]: "path (emitOf smaps g) = path g"
  by (simp add: emitOf_def)

lemma sortedEmit_frame:
  "n = getOriginalName (path f) \<Longrightarrow>
     \<exists>new. jsStream (sortedEmit gsf outJS smaps n f st) = jsStream st @ new \<and>
       set new \<subseteq> emitOf smaps ` insert f (set outJS) \<and>
       distinct (map origName new) \<and>
       set (map origName new) \<subseteq> doneSet (sortedEmit gsf outJS smaps n f st) - doneSet st \<and>
       doneSet st \<subseteq> doneSet (sortedEmit gsf outJS smaps n f st) \<and>
       (thrown (sortedEmit gsf outJS smaps n f st) = None \<longrightarrow>
          doneSet (sortedEmit gsf outJS smaps n f st) = doneSet st \<union> set (map origName new))"
  "\<exists>new. jsStream (sortedEmitRefs gsf outJS smaps refs rest st) = jsStream st @ new \<and>
       set new \<subseteq> emitOf smaps ` (set outJS \<union> set rest) \<and>
       distinct (map origName new) \<and>
       set (map origName new) \<subseteq> doneSet (sortedEmitRefs gsf outJS smaps refs rest st) - doneSet st \<and>
       doneSet st \<subseteq> doneSet (sortedEmitRefs gsf outJS smaps refs rest st) \<and>
       (thrown (sortedEmitRefs gsf outJS smaps refs rest st) = None \<longrightarrow>
          doneSet (sortedEmitRefs gsf outJS smaps refs rest st) = doneSet st \<union> set (map origName new))"
proof (induction gsf outJS smaps n f st and gsf outJS smaps refs rest st
       rule: sortedEmit_sortedEmitRefs.induct)
  case (1 gsf outJS smaps originalName f st)
  show ?case
  proof (cases "originalName \<in> doneSet st")
    case True
    then show ?thesis by (simp add: sortedEmit.simps)
  next
    case notdone: False
    show ?thesis
    proof (cases "gsf originalName")
      case None
      then show ?thesis using notdone by (auto simp: sortedEmit.simps)
    next
      case (Some tsFile)
      let ?st1 = "st\<lparr>doneSet := insert originalName (doneSet st)\<rparr>"
      let ?st2 = "sortedEmitRefs gsf outJS smaps (referencedFiles tsFile) outJS ?st1"
      from 1(1) [OF notdone Some]
      obtain new where new: "jsStream ?st2 = jsStream st @ new"
        "set new \<subseteq> emitOf smaps ` set outJS"
        "distinct (map origName new)"
        "set (map origName new) \<subseteq> doneSet ?st2 - insert originalName (doneSet st)"
        "insert originalName (doneSet st) \<subseteq> doneSet ?st2"
        "thrown ?st2 = None \<longrightarrow>
           doneSet ?st2 = insert originalName (doneSet st) \<union> set (map origName new)"
        by auto
      show ?thesis
      proof (cases "thrown ?st2 = None")
        case True
        have res: "sortedEmit gsf outJS smaps originalName f st
              = ?st2\<lparr>jsStream := jsStream ?st2 @ [emitOf smaps f]\<rparr>"
          using notdone Some True 1(2)
          by (simp add: sortedEmit.simps Let_def emit_def emitOf_def)
        show ?thesis
          unfolding res using new True notdone 1(2)
          by (intro exI [of _ "new @ [emitOf smaps f]"]) auto
      next
        case False
        have res: "sortedEmit gsf outJS smaps originalName f st = ?st2"
          using notdone Some False
          by (auto simp: sortedEmit.simps Let_def)
        show ?thesis
          unfolding res using new False
          by (intro exI [of _ new]) auto
      qed
    qed
  qed
next
  case (2 gsf outJS smaps references st)
  show ?case by simp
next
  case (3 gsf outJS smaps references other rest st)
  show ?case
  proof (cases "getOriginalName (path other) \<in> set references")
    case inrefs: True
    let ?st' = "sortedEmit gsf outJS smaps (getOriginalName (path other)) other st"
    from 3(1) [OF inrefs refl]
    obtain new1 where new1: "jsStream ?st' = jsStream st @ new1"
      "set new1 \<subseteq> emitOf smaps ` insert other (set outJS)"
      "distinct (map origName new1)"
      "set (map origName new1) \<subseteq> doneSet ?st' - doneSet st"
      "doneSet st \<subseteq> doneSet ?st'"
      "thrown ?st' = None \<longrightarrow> doneSet ?st' = doneSet st \<union> set (map origName new1)"
      by auto
    show ?thesis
    proof (cases "thrown ?st' = None")
      case True
      let ?st'' = "sortedEmitRefs gsf outJS smaps references rest ?st'"
      from 3(2) [OF inrefs refl True]
      obtain new2 where new2: "jsStream ?st'' = jsStream ?st' @ new2"
        "set new2 \<subseteq> emitOf smaps ` (set outJS \<union> set rest)"
        "distinct (map origName new2)"
        "set (map origName new2) \<subseteq> doneSet ?st'' - doneSet ?st'"
        "doneSet ?st' \<subseteq> doneSet ?st''"
        "thrown ?st'' = None \<longrightarrow> doneSet ?st'' = doneSet ?st' \<union> set (map origName new2)"
        by auto
      have res: "sortedEmitRefs gsf outJS smaps references (other # rest) st = ?st''"
        using inrefs True by simp
      have disj: "set (map origName new1) \<inter> set (map origName new2) = {}"
        using new1(4) new2(4) by auto
      show ?thesis
        unfolding res using new1 new2 True disj
        by (intro exI [of _ "new1 @ new2"]) auto
    next
      case False
      have res: "sortedEmitRefs gsf outJS smaps references (other # rest) st = ?st'"
        using inrefs False by (auto simp: Let_def)
      show ?thesis
        unfolding res using new1 False
        by (intro exI [of _ new1]) auto
    qed
  next
    case False
    then have res: "sortedEmitRefs gsf outJS smaps references (other # rest) st
        = sortedEmitRefs gsf outJS smaps references rest st"
      by simp
    from 3(3) [OF False] show ?thesis
      unfolding res by auto
  qed
qed




lemma sortedEmit_done_mono:
  "doneSet st \<subseteq> doneSet (sortedEmit gsf outJS smaps n f st)"
  "doneSet st \<subseteq> doneSet (sortedEmitRefs gsf outJS smaps refs rest st)"
proof (induction gsf outJS smaps n f st and gsf outJS smaps refs rest st
       rule: sortedEmit_sortedEmitRefs.induct)
  case (1 gsf outJS smaps originalName f st)
  then show ?case
    by (auto simp: sortedEmit.simps Let_def split: option.splits)
next
  case (2 gsf outJS smaps references st)
  show ?case by simp
next
  case (3 gsf outJS smaps references other rest st)
  then show ?case
    by (auto simp: Let_def split: if_splits)
qed

lemma sortedEmit_marks: "n \<in> doneSet (sortedEmit gsf outJS smaps n f st)"
proof (cases "n \<in> doneSet st")
  case True
  then show ?thesis by (simp add: sortedEmit.simps)
next
  case False
  have "insert n (doneSet st) \<subseteq> doneSet (sortedEmit gsf outJS smaps n f st)"
    using False sortedEmit_done_mono(2) [of "st\<lparr>doneSet := insert n (doneSet st)\<rparr>" gsf outJS smaps]
    by (auto simp: sortedEmit.simps Let_def split: option.splits)
  then show ?thesis by simp
qed

lemma sortedEmit_no_throw:
  "gsf n \<noteq> None \<Longrightarrow> \<forall>g \<in> set outJS. gsf (getOriginalName (path g)) \<noteq> None \<Longrightarrow>
     thrown st = None \<Longrightarrow> thrown (sortedEmit gsf outJS smaps n f st) = None"
  "\<forall>g \<in> set outJS \<union> set rest. gsf (getOriginalName (path g)) \<noteq> None \<Longrightarrow>
     thrown st = None \<Longrightarrow> thrown (sortedEmitRefs gsf outJS smaps refs rest st) = None"
proof (induction gsf outJS smaps n f st and gsf outJS smaps refs rest st
       rule: sortedEmit_sortedEmitRefs.induct)
  case (1 gsf outJS smaps originalName f st)
  then show ?case
    by (auto simp: sortedEmit.simps Let_def split: option.splits)
next
  case (2 gsf outJS smaps references st)
  then show ?case by simp
next
  case (3 gsf outJS smaps references other rest st)
  then show ?case
    by (auto simp: Let_def split: if_splits)
qed



lemma sortedAll_frame:
  "\<exists>new. jsStream (sortedAll gsf outJS smaps rest st) = jsStream st @ new \<and>
       set new \<subseteq> emitOf smaps ` (set outJS \<union> set rest) \<and>
       distinct (map origName new) \<and>
       set (map origName new) \<subseteq> doneSet (sortedAll gsf outJS smaps rest st) - doneSet st \<and>
       doneSet st \<subseteq> doneSet (sortedAll gsf outJS smaps rest st) \<and>
       (thrown (sortedAll gsf outJS smaps rest st) = None \<longrightarrow>
          doneSet (sortedAll gsf outJS smaps rest st) = doneSet st \<union> set (map origName new) \<and>
          originalNames rest \<subseteq> doneSet (sortedAll gsf outJS smaps rest st))"
proof (induction rest arbitrary: st)
  case Nil
  show ?case by (simp add: originalNames_def)
next
  case (Cons f rest)
  let ?st' = "sortedEmit gsf outJS smaps (getOriginalName (path f)) f st"
  from sortedEmit_frame(1) [OF refl, of gsf outJS smaps f st]
  obtain new1 where new1: "jsStream ?st' = jsStream st @ new1"
    "set new1 \<subseteq> emitOf smaps ` insert f (set outJS)"
    "distinct (map origName new1)"
    "set (map origName new1) \<subseteq> doneSet ?st' - doneSet st"
    "doneSet st \<subseteq> doneSet ?st'"
    "thrown ?st' = None \<longrightarrow> doneSet ?st' = doneSet st \<union> set (map origName new1)"
    by auto
  show ?case
  proof (cases "thrown ?st' = None")
    case True
    let ?st'' = "sortedAll gsf outJS smaps rest ?st'"
    from Cons.IH [of ?st']
    obtain new2 where new2: "jsStream ?st'' = jsStream ?st' @ new2"
      "set new2 \<subseteq> emitOf smaps ` (set outJS \<union> set rest)"
      "distinct (map origName new2)"
      "set (map origName new2) \<subseteq> doneSet ?st'' - doneSet ?st'"
      "doneSet ?st' \<subseteq> doneSet ?st''"
      "thrown ?st'' = None \<longrightarrow>
         doneSet ?st'' = doneSet ?st' \<union> set (map origName new2) \<and>
         originalNames rest \<subseteq> doneSet ?st''"
      by auto
    have res: "sortedAll gsf outJS smaps (f # rest) st = ?st''"
      using True by simp
    have disj: "set (map origName new1) \<inter> set (map origName new2) = {}"
      using new1(4) new2(4) by auto
    have marked: "getOriginalName (path f) \<in> doneSet ?st''"
      using sortedEmit_marks [of "getOriginalName (path f)" gsf outJS smaps f st] new2(5)
      by auto
    show ?thesis
      unfolding res using new1 new2 True disj marked
      by (intro exI [of _ "new1 @ new2"]) (auto simp: originalNames_def)
  next
    case False
    have res: "sortedAll gsf outJS smaps (f # rest) st = ?st'"
      using False by (auto simp: Let_def)
    show ?thesis
      unfolding res using new1 False
      by (intro exI [of _ new1]) auto
  qed
qed

lemma sortedAll_no_throw:
  "\<forall>g \<in> set outJS \<union> set rest. gsf (getOriginalName (path g)) \<noteq> None \<Longrightarrow>
     thrown st = None \<Longrightarrow> thrown (sortedAll gsf outJS smaps rest st) = None"
proof (induction rest arbitrary: st)
  case Nil
  then show ?case by simp
next
  case (Cons f rest)
  have "thrown (sortedEmit gsf outJS smaps (getOriginalName (path f)) f st) = None"
    using Cons.prems by (intro sortedEmit_no_throw(1)) auto
  then show ?case using Cons by (simp add: Let_def)
qed


lemma emitAll_jsStream:
  "jsStream (emitAll smaps fs st) = jsStream st @ map (emitOf smaps) fs \<and>
   thrown (emitAll smaps fs st) = thrown st"
  by (induction fs arbitrary: st) (auto simp: emit_def emitOf_def)

section \<open>The artifacts collected from the host\<close>

lemma suffixMatch_js: "suffixMatch (c # cs @ ''.js'') = False"
proof -
  let ?s = "c # cs @ ''.js''"
  have r: "rev ?s = ''sj.'' @ rev cs @ [c]" by simp
  have "?s \<noteq> ''.d.ts''"
  proof
    assume "?s = ''.d.ts''"
    then have "rev ?s = rev ''.d.ts''" by (rule arg_cong)
    then show False unfolding r by simp
  qed
  moreover have "?s \<noteq> ''.js''"
  proof
    assume "?s = ''.js''"
    then have "length ?s = length ''.js''" by (rule arg_cong)
    then show False by simp
  qed
  moreover have "drop 4 ?s \<noteq> ''map''"
  proof
    assume d: "drop 4 ?s = ''map''"
    have "rev ?s = rev (drop 4 ?s) @ rev (take 4 ?s)"
      by (metis append_take_drop_id rev_append)
    then show False unfolding d r by simp
  qed
  ultimately show ?thesis unfolding suffixMatch_def by blast
qed

lemma getOriginalName_js: "getOriginalName (pre @ ''.js'') = pre @ ''.ts''"
proof (induction pre)
  case Nil
  show ?case by (simp add: suffixMatch_def)
next
  case (Cons c cs)
  have "getOriginalName (c # cs @ ''.js'') = c # getOriginalName (cs @ ''.js'')"
    using suffixMatch_js [of c cs] by simp
  then show ?case using Cons by simp
qed

lemma substr_suffix:
  assumes "length suf = n" "0 < n"
  shows "(substr s (- int n) = suf) = (\<exists>pre. s = pre @ suf)"
proof
  assume eq: "substr s (- int n) = suf"
  have "substr s (- int n) = drop (length s - n) s"
    using assms(2) by (simp add: substr_def Let_def max_def nat_diff_distrib')
  then have "s = take (length s - n) s @ suf"
    using eq by simp
  then show "\<exists>pre. s = pre @ suf" ..
next
  assume "\<exists>pre. s = pre @ suf"
  then obtain pre where "s = pre @ suf" by blast
  then show "substr s (- int n) = suf"
    using assms by (simp add: substr_def Let_def max_def)
qed

lemma collect_outputJS:
  "outputJS (collect p out acc) = outputJS acc @ List.map_filter (jsArtifact p) out"
  by (induction p out acc rule: collect.induct)
     (auto simp: jsArtifact_def split: option.splits)

lemma collect_declStream:
  "declStream (collect p out acc) = declStream acc @ List.map_filter (declArtifact p) out"
  by (induction p out acc rule: collect.induct)
     (auto simp: declArtifact_def split: option.splits)

lemma collect_sourcemaps_dom:
  "sourcemaps (collect p out acc) k = Some m \<Longrightarrow>
     sourcemaps acc k = Some m \<or> (\<exists>pre. k = pre @ ''.map'')"
proof (induction p out acc rule: collect.induct)
  case (1 p acc)
  then show ?case by simp
next
  case (2 p fname data rest acc)
  have suffix: "substr fname (- 4) = ''.map'' \<Longrightarrow> \<exists>pre. fname = pre @ ''.map''"
    using substr_suffix [of "''.map''" 4 fname] by simp
  show ?case
  proof (cases "map_of (currentFiles p) (getOriginalName fname)")
    case None
    then show ?thesis using 2 by simp
  next
    case (Some original)
    then show ?thesis
      using 2 suffix by (auto split: if_splits)
  qed
qed

lemma collect_discards:
  "map_of (currentFiles p) (getOriginalName fname) = None \<Longrightarrow>
     collect p (xs @ (fname, data) # ys) acc = collect p (xs @ ys) acc"
  by (induction p xs acc rule: collect.induct) (auto split: option.splits)

lemma jsArtifact_Some:
  "jsArtifact p (fname, data) = Some f \<Longrightarrow>
     path f = fname \<and> contents f = removeSourceMapComment data \<and>
     (\<exists>pre. fname = pre @ ''.js'') \<and>
     map_of (currentFiles p) (getOriginalName fname) \<noteq> None"
  using substr_suffix [of "''.js''" 3 fname]
  by (auto simp: jsArtifact_def newFile_def split: option.splits if_splits)

lemma declArtifact_Some:
  "declArtifact p (fname, data) = Some f \<Longrightarrow>
     path f = fname \<and> contents f = removeSourceMapComment data \<and>
     substr fname (- 5) = ''.d.ts'' \<and>
     map_of (currentFiles p) (getOriginalName fname) \<noteq> None"
  by (auto simp: declArtifact_def newFile_def split: option.splits if_splits)

lemma declaration_not_js: "substr fname (- 5) = ''.d.ts'' \<Longrightarrow> substr fname (- 3) \<noteq> ''.js''"
proof
  assume "substr fname (- 5) = ''.d.ts''" "substr fname (- 3) = ''.js''"
  then obtain pre pre' where "fname = pre @ ''.d.ts''" "fname = pre' @ ''.js''"
    using substr_suffix [of "''.d.ts''" 5 fname] substr_suffix [of "''.js''" 3 fname] by auto
  then have "rev (pre @ ''.d.ts'') = rev (pre' @ ''.js'')" by simp
  then show False by simp
qed

lemma map_filter_mem:
  "y \<in> set (List.map_filter f xs) \<longleftrightarrow> (\<exists>x \<in> set xs. f x = Some y)"
  by (induction xs) (auto split: option.splits)

lemma distinct_map_filter_paths:
  assumes "distinct (map fst out)"
    and "\<And>k d f. g (k, d) = Some f \<Longrightarrow> h f = k"
  shows "distinct (map h (List.map_filter g out))"
  using assms(1)
proof (induction out)
  case Nil
  show ?case by simp
next
  case (Cons x out)
  obtain k d where x: "x = (k, d)" by (cases x)
  show ?case
  proof (cases "g x")
    case None
    then show ?thesis using Cons by simp
  next
    case (Some f)
    have "h f = k" using Some x assms(2) by auto
    moreover have "k \<notin> h ` set (List.map_filter g out)"
    proof
      assume "k \<in> h ` set (List.map_filter g out)"
      then obtain f' where "f' \<in> set (List.map_filter g out)" "h f' = k" by auto
      then obtain x' where "x' \<in> set out" "g x' = Some f'"
        by (auto simp: map_filter_mem)
      then have "fst x' = k" using assms(2) [of "fst x'" "snd x'" f'] \<open>h f' = k\<close> by simp
      then show False using Cons.prems x \<open>x' \<in> set out\<close> by force
    qed
    ultimately show ?thesis using Cons Some by simp
  qed
qed

lemma distinct_fold_update:
  "distinct (map fst acc) \<Longrightarrow> distinct (map fst (fold (\<lambda>(k, v). AList.update k v) ws acc))"
  by (induction ws arbitrary: acc) (auto simp: distinct_update)

lemma distinct_hostOutput: "distinct (map fst (hostOutput ws))"
  by (simp add: hostOutput_def distinct_fold_update)

lemma distinct_compileHostOutput: "distinct (map fst (compileHostOutput program))"
  by (simp add: compileHostOutput_def distinct_hostOutput)

lemma compiledCode_eq:
  "compiledCode p program = List.map_filter (jsArtifact p) (compileHostOutput program)"
  by (simp add: compiledCode_def collect_outputJS emptyCollected_def)

lemma distinct_compiledCode_paths: "distinct (map path (compiledCode p program))"
  unfolding compiledCode_eq
  by (rule distinct_map_filter_paths [OF distinct_compileHostOutput]) (auto dest: jsArtifact_Some)

lemma compiledCode_js:
  "f \<in> set (compiledCode p program) \<Longrightarrow> \<exists>pre. path f = pre @ ''.js''"
  by (auto simp: compiledCode_eq map_filter_mem dest: jsArtifact_Some)

lemma origName_compiledCode:
  "f \<in> set (compiledCode p program) \<Longrightarrow> \<exists>pre. path f = pre @ ''.js'' \<and> origName f = pre @ ''.ts''"
  using compiledCode_js getOriginalName_js by metis

lemma inj_on_origName: "inj_on origName (set (compiledCode p program))"
proof (rule inj_onI)
  fix f g
  assume f: "f \<in> set (compiledCode p program)" and g: "g \<in> set (compiledCode p program)"
    and eq: "origName f = origName g"
  from f g obtain pf pg where "path f = pf @ ''.js''" "origName f = pf @ ''.ts''"
    "path g = pg @ ''.js''" "origName g = pg @ ''.ts''"
    using origName_compiledCode by metis
  then have "path f = path g" using eq by simp
  then show "f = g"
    using f g distinct_compiledCode_paths [of p program]
    by (meson distinct_map inj_onD)
qed

lemma distinct_compiledCode_names: "distinct (map origName (compiledCode p program))"
proof -
  have "distinct (compiledCode p program)"
    using distinct_compiledCode_paths [of p program] by (simp add: distinct_map)
  then show ?thesis by (simp add: distinct_map inj_on_origName)
qed

lemma generatedMaps_miss:
  assumes "f \<in> set (compiledCode p program)"
  shows "generatedMaps p program (origName f) = None"
proof (rule ccontr)
  assume "generatedMaps p program (origName f) \<noteq> None"
  then obtain m where "sourcemaps (collect p (compileHostOutput program) emptyCollected) (origName f) = Some m"
    by (auto simp: generatedMaps_def)
  then obtain pre where "origName f = pre @ ''.map''"
    using collect_sourcemaps_dom by (fastforce simp: emptyCollected_def)
  moreover obtain pre' where "origName f = pre' @ ''.ts''"
    using origName_compiledCode [OF assms] by auto
  ultimately have "rev (pre @ ''.map'') = rev (pre' @ ''.ts'')" by simp
  then show False by simp
qed

section \<open>The result of compile\<close>

lemma getError_Inl: "(getError libs p d = Inl e) = (\<not> carriesFile d \<and> e = TypeError)"
  by (auto simp: getError_def carriesFile_def Let_def split: option.splits)

lemma getError_Inr: "carriesFile d \<Longrightarrow> \<exists>err. getError libs p d = Inr err"
  by (auto simp: getError_def carriesFile_def Let_def split: option.splits)

lemma reportErrors_eq:
  "\<exists>rep. reportErrors libs p ds called
            = (called @ rep, if list_all carriesFile ds then None else Some TypeError) \<and>
         map Inr rep = map (getError libs p) (takeWhile carriesFile ds)"
proof (induction ds arbitrary: called)
  case Nil
  show ?case by simp
next
  case (Cons d ds)
  show ?case
  proof (cases "carriesFile d")
    case True
    then obtain err where err: "getError libs p d = Inr err"
      using getError_Inr by blast
    from Cons [of "called @ [err]"] obtain rep where
      "reportErrors libs p ds (called @ [err])
         = ((called @ [err]) @ rep, if list_all carriesFile ds then None else Some TypeError)"
      "map Inr rep = map (getError libs p) (takeWhile carriesFile ds)"
      by blast
    then show ?thesis
      using True err by (intro exI [of _ "err # rep"]) simp
  next
    case False
    then have "getError libs p d = Inl TypeError"
      by (simp add: getError_Inl)
    then show ?thesis using False by simp
  qed
qed

lemma compile_calls:
  "calls (compile libs createProgram p)
     = compileCalls (getCurrentFilenames p) (createProgram (getCurrentFilenames p))"
  by (simp add: compile_def Let_def split: prod.splits option.splits)

lemma compile_reported:
  "map Inr (reported (compile libs createProgram p))
     = map (getError libs p)
         (takeWhile carriesFile (compileErrors (createProgram (getCurrentFilenames p))))"
proof -
  obtain rep where
    "reportErrors libs p (compileErrors (createProgram (getCurrentFilenames p))) []
       = (rep, if list_all carriesFile (compileErrors (createProgram (getCurrentFilenames p)))
               then None else Some TypeError)"
    "map Inr rep = map (getError libs p)
       (takeWhile carriesFile (compileErrors (createProgram (getCurrentFilenames p))))"
    using reportErrors_eq [of libs p _ "[]"] by auto
  then show ?thesis
    by (simp add: compile_def Let_def split: option.splits)
qed

lemma compile_aborted:
  assumes "\<not> list_all carriesFile (compileErrors (createProgram (getCurrentFilenames p)))"
  shows "raised (compile libs createProgram p) = Some TypeError"
    and "jsPushed (compile libs createProgram p) = []"
    and "declPushed (compile libs createProgram p) = []"
proof -
  obtain rep where
    "reportErrors libs p (compileErrors (createProgram (getCurrentFilenames p))) []
       = (rep, Some TypeError)"
    using reportErrors_eq [of libs p "compileErrors (createProgram (getCurrentFilenames p))" "[]"]
      assms by auto
  then show "raised (compile libs createProgram p) = Some TypeError"
    and "jsPushed (compile libs createProgram p) = []"
    and "declPushed (compile libs createProgram p) = []"
    by (simp_all add: compile_def Let_def)
qed

lemma compile_completed:
  assumes "list_all carriesFile (compileErrors (createProgram (getCurrentFilenames p)))"
  shows "declPushed (compile libs createProgram p)
           = List.map_filter (declArtifact p)
               (compileHostOutput (createProgram (getCurrentFilenames p)))"
    and "jsPushed (compile libs createProgram p)
           = jsStream (emissionOf p (createProgram (getCurrentFilenames p)))"
    and "raised (compile libs createProgram p)
           = thrown (emissionOf p (createProgram (getCurrentFilenames p)))"
    and "map Inr (reported (compile libs createProgram p))
           = map (getError libs p) (compileErrors (createProgram (getCurrentFilenames p)))"
proof -
  obtain rep where rep:
    "reportErrors libs p (compileErrors (createProgram (getCurrentFilenames p))) [] = (rep, None)"
    using reportErrors_eq [of libs p "compileErrors (createProgram (getCurrentFilenames p))" "[]"]
      assms by auto
  then show "declPushed (compile libs createProgram p)
           = List.map_filter (declArtifact p)
               (compileHostOutput (createProgram (getCurrentFilenames p)))"
    and "jsPushed (compile libs createProgram p)
           = jsStream (emissionOf p (createProgram (getCurrentFilenames p)))"
    and "raised (compile libs createProgram p)
           = thrown (emissionOf p (createProgram (getCurrentFilenames p)))"
    by (simp_all add: compile_def Let_def collect_declStream emptyCollected_def emissionOf_def)
  have tw: "takeWhile carriesFile (compileErrors (createProgram (getCurrentFilenames p)))
          = compileErrors (createProgram (getCurrentFilenames p))"
    using assms by (simp add: list_all_iff)
  show "map Inr (reported (compile libs createProgram p))
           = map (getError libs p) (compileErrors (createProgram (getCurrentFilenames p)))"
    using compile_reported [of libs createProgram p] unfolding tw .
qed

lemma compile_jsPushed_cases:
  "jsPushed (compile libs createProgram p) = [] \<or>
   jsPushed (compile libs createProgram p)
     = jsStream (emissionOf p (createProgram (getCurrentFilenames p)))"
  using compile_aborted(2) compile_completed(2) by blast

lemma compile_declPushed_cases:
  "declPushed (compile libs createProgram p) = [] \<or>
   declPushed (compile libs createProgram p)
     = List.map_filter (declArtifact p)
         (compileHostOutput (createProgram (getCurrentFilenames p)))"
  using compile_aborted(3) compile_completed(1) by blast

lemma emissionOf_eq:
  "emissionOf p program =
     (if sortOutput p
      then sortedAll (getSourceFile program) (compiledCode p program) (generatedMaps p program)
             (compiledCode p program) emptyEmitState
      else emitAll (generatedMaps p program) (compiledCode p program) emptyEmitState)"
  by (simp add: emissionOf_def emitPhase_def compiledCode_def generatedMaps_def)

lemma emission_unsorted:
  "\<not> sortOutput p \<Longrightarrow>
     jsStream (emissionOf p program) = map (emitOf (generatedMaps p program)) (compiledCode p program)
     \<and> thrown (emissionOf p program) = None"
  by (simp add: emissionOf_eq emitAll_jsStream emptyEmitState_def)

lemma emission_subset:
  "set (jsStream (emissionOf p program))
     \<subseteq> emitOf (generatedMaps p program) ` set (compiledCode p program)"
proof (cases "sortOutput p")
  case True
  from sortedAll_frame [of "getSourceFile program" "compiledCode p program"
      "generatedMaps p program" "compiledCode p program" emptyEmitState]
  show ?thesis using True by (auto simp: emissionOf_eq emptyEmitState_def)
next
  case False
  then show ?thesis by (simp add: emission_unsorted)
qed

lemma emission_distinct: "distinct (map origName (jsStream (emissionOf p program)))"
proof (cases "sortOutput p")
  case True
  from sortedAll_frame [of "getSourceFile program" "compiledCode p program"
      "generatedMaps p program" "compiledCode p program" emptyEmitState]
  show ?thesis using True by (auto simp: emissionOf_eq emptyEmitState_def)
next
  case False
  then show ?thesis
    using distinct_compiledCode_names [of p program]
    by (simp add: emission_unsorted comp_def)
qed

lemma distinct_paths_of_names:
  "distinct (map origName fs) \<Longrightarrow> distinct (map path fs)"
proof -
  assume "distinct (map origName fs)"
  then have "distinct (map getOriginalName (map path fs))" by (simp add: comp_def)
  then show ?thesis by (simp only: distinct_map)
qed

lemma emission_sorted_complete:
  assumes "sortOutput p"
    and "\<forall>f \<in> set (compiledCode p program). getSourceFile program (origName f) \<noteq> None"
  shows "thrown (emissionOf p program) = None"
    and "set (map origName (jsStream (emissionOf p program))) = originalNames (compiledCode p program)"
    and "set (jsStream (emissionOf p program))
           = emitOf (generatedMaps p program) ` set (compiledCode p program)"
    and "length (jsStream (emissionOf p program)) = length (compiledCode p program)"
proof -
  let ?cc = "compiledCode p program" and ?gm = "generatedMaps p program"
  let ?st = "emissionOf p program"
  have eq: "?st = sortedAll (getSourceFile program) ?cc ?gm ?cc emptyEmitState"
    using assms(1) by (simp add: emissionOf_eq)
  show nothrow: "thrown ?st = None"
    unfolding eq using assms(2)
    by (intro sortedAll_no_throw) (auto simp: emptyEmitState_def)
  from sortedAll_frame [of "getSourceFile program" ?cc ?gm ?cc emptyEmitState] nothrow
  have sub: "set (jsStream ?st) \<subseteq> emitOf ?gm ` set ?cc"
    and names: "doneSet ?st = set (map origName (jsStream ?st))"
    and all: "originalNames ?cc \<subseteq> doneSet ?st"
    unfolding eq by (auto simp: emptyEmitState_def)
  have "set (map origName (jsStream ?st)) \<subseteq> originalNames ?cc"
    using sub by (auto simp: originalNames_def)
  then show nameset: "set (map origName (jsStream ?st)) = originalNames ?cc"
    using names all by auto
  show "set (jsStream ?st) = emitOf ?gm ` set ?cc"
  proof
    show "set (jsStream ?st) \<subseteq> emitOf ?gm ` set ?cc" by (rule sub)
    show "emitOf ?gm ` set ?cc \<subseteq> set (jsStream ?st)"
    proof
      fix x assume "x \<in> emitOf ?gm ` set ?cc"
      then obtain g where g: "g \<in> set ?cc" "x = emitOf ?gm g" by auto
      then have "origName g \<in> set (map origName (jsStream ?st))"
        using nameset by (auto simp: originalNames_def)
      then obtain y where y: "y \<in> set (jsStream ?st)" "origName y = origName g" by auto
      then obtain g' where g': "g' \<in> set ?cc" "y = emitOf ?gm g'" using sub by auto
      then have "origName g' = origName g" using y by simp
      then have "g' = g" using g g' inj_on_origName [of p program] by (auto dest: inj_onD)
      then show "x \<in> set (jsStream ?st)" using y g g' by simp
    qed
  qed
  have "length (map origName (jsStream ?st)) = length (map origName ?cc)"
  proof -
    have "card (set (map origName (jsStream ?st))) = card (set (map origName ?cc))"
      using nameset by (simp add: originalNames_def)
    then show ?thesis
      using emission_distinct [of p program] distinct_compiledCode_names [of p program]
      by (simp only: distinct_card)
  qed
  then show "length (jsStream ?st) = length ?cc" by simp
qed



lemma compileHostOutput_diagnostics:
  "compileHostOutput (program\<lparr>checkerGetDiagnostics := sem, emitFilesErrors := emi\<rparr>)
     = compileHostOutput program"
  by (simp add: compileHostOutput_def)

lemma emissionOf_diagnostics:
  "emissionOf p (program\<lparr>checkerGetDiagnostics := sem, emitFilesErrors := emi\<rparr>)
     = emissionOf p program"
  by (simp add: emissionOf_def compileHostOutput_diagnostics emitPhase_def)

lemma emission_syntax_errors:
  "getDiagnostics program \<noteq> [] \<Longrightarrow>
     compileHostOutput program = [] \<and> emissionOf p program = emptyEmitState"
  by (simp add: compileHostOutput_def emissionOf_def emitPhase_def emptyCollected_def)


section \<open>Sorted emission: order and single emission\<close>













text \<open>
  Claim C3. \<^const>\<open>sortedEmit\<close> is a total function: its recursion is bounded by the number
  of artifact names not yet in the \<^verbatim>\<open>done\<close> table, whatever the references are, cycles
  included. With \<^verbatim>\<open>sortOutput\<close>, no artifact is ever pushed twice and only compiled artifacts
  are pushed. When the program knows the source of every compiled artifact, the emission
  phase does not throw and pushes every compiled artifact exactly once; \<^verbatim>\<open>compile\<close> reaches
  that phase when the loop over the diagnostics completes, and then pushes exactly that. A
  file whose name is already in the table, emitted or still in progress, is skipped.
\<close>

theorem sorted_emission_each_artifact_once:
  "sortOutput p \<Longrightarrow> program = createProgram (getCurrentFilenames p) \<Longrightarrow>
   r = compile libs createProgram p \<Longrightarrow>
     distinct (map path (jsPushed r)) \<and>
     set (jsPushed r) \<subseteq> emitOf (generatedMaps p program) ` set (compiledCode p program) \<and>
     ((\<forall>f \<in> set (compiledCode p program). getSourceFile program (origName f) \<noteq> None) \<longrightarrow>
        thrown (emissionOf p program) = None \<and>
        distinct (map path (jsStream (emissionOf p program))) \<and>
        set (jsStream (emissionOf p program))
          = emitOf (generatedMaps p program) ` set (compiledCode p program) \<and>
        set (map path (jsStream (emissionOf p program))) = set (map path (compiledCode p program)) \<and>
        length (jsStream (emissionOf p program)) = length (compiledCode p program) \<and>
        (list_all carriesFile (compileErrors program) \<longrightarrow>
           raised r = None \<and>
           set (jsPushed r) = emitOf (generatedMaps p program) ` set (compiledCode p program) \<and>
           set (map path (jsPushed r)) = set (map path (compiledCode p program)) \<and>
           length (jsPushed r) = length (compiledCode p program))) \<and>
     (list_all carriesFile (compileErrors program) \<longrightarrow>
        jsPushed r = jsStream (emissionOf p program) \<and> raised r = thrown (emissionOf p program)) \<and>
     (n \<in> doneSet st \<longrightarrow> sortedEmit gsf outJS smaps n f st = st)"
proof -
  assume s: "sortOutput p" and pr: "program = createProgram (getCurrentFilenames p)"
    and r: "r = compile libs createProgram p"
  let ?em = "emissionOf p program"
  have phase_distinct: "distinct (map path (jsStream ?em))"
    using emission_distinct by (rule distinct_paths_of_names)
  have cases: "jsPushed r = [] \<or> jsPushed r = jsStream ?em"
    unfolding r pr by (rule compile_jsPushed_cases)
  have "distinct (map path (jsPushed r))"
    using cases phase_distinct by auto
  moreover have "set (jsPushed r) \<subseteq> emitOf (generatedMaps p program) ` set (compiledCode p program)"
    using cases emission_subset [of p program] by auto
  moreover have link: "jsPushed r = jsStream ?em \<and> raised r = thrown ?em"
    if "list_all carriesFile (compileErrors program)"
    using that unfolding r pr by (simp add: compile_completed)
  moreover have "thrown ?em = None \<and>
        distinct (map path (jsStream ?em)) \<and>
        set (jsStream ?em) = emitOf (generatedMaps p program) ` set (compiledCode p program) \<and>
        set (map path (jsStream ?em)) = set (map path (compiledCode p program)) \<and>
        length (jsStream ?em) = length (compiledCode p program) \<and>
        (list_all carriesFile (compileErrors program) \<longrightarrow>
           raised r = None \<and>
           set (jsPushed r) = emitOf (generatedMaps p program) ` set (compiledCode p program) \<and>
           set (map path (jsPushed r)) = set (map path (compiledCode p program)) \<and>
           length (jsPushed r) = length (compiledCode p program))"
    if known: "\<forall>f \<in> set (compiledCode p program). getSourceFile program (origName f) \<noteq> None"
  proof -
    note c = emission_sorted_complete [OF s known]
    have "set (map path (jsStream ?em))
            = path ` emitOf (generatedMaps p program) ` set (compiledCode p program)"
      using c(3) by simp
    also have "\<dots> = set (map path (compiledCode p program))"
      by (simp add: image_image)
    finally have paths: "set (map path (jsStream ?em)) = set (map path (compiledCode p program))" .
    show ?thesis
      using c paths phase_distinct link by simp
  qed
  moreover have "sortedEmit gsf outJS smaps n f st = st" if "n \<in> doneSet st"
    using that by (simp add: sortedEmit.simps)
  ultimately show ?thesis by blast
qed

lemma cycle_sources:
  "\<forall>f \<in> set (compiledCode (exampleProject True) cycleProgram).
     getSourceFile cycleProgram (origName f) \<noteq> None"
proof -
  have "list_all (\<lambda>n. getSourceFile cycleProgram n \<noteq> None)
          (map origName (compiledCode (exampleProject True) cycleProgram))"
    by code_simp
  then show ?thesis by (simp add: list_all_iff)
qed

theorem sorted_emission_each_artifact_once_witness:
  "sortOutput (exampleProject True) \<and>
   list_all (\<lambda>f. getSourceFile cycleProgram (origName f) \<noteq> None)
     (compiledCode (exampleProject True) cycleProgram) \<and>
   list_all carriesFile (compileErrors cycleProgram) \<and>
   referencedFiles (the (getSourceFile cycleProgram ''a.ts'')) = [''b.ts''] \<and>
   referencedFiles (the (getSourceFile cycleProgram ''b.ts'')) = [''a.ts''] \<and>
   map path (compiledCode (exampleProject True) cycleProgram) = [''a.js'', ''b.js''] \<and>
   map path (jsPushed (compile exampleLibs (\<lambda>roots. cycleProgram) (exampleProject True)))
     = [''b.js'', ''a.js''] \<and>
   raised (compile exampleLibs (\<lambda>roots. cycleProgram) (exampleProject True)) = None \<and>
   distinct (map path (jsPushed (compile exampleLibs (\<lambda>roots. cycleProgram) (exampleProject True)))) \<and>
   length (jsPushed (compile exampleLibs (\<lambda>roots. cycleProgram) (exampleProject True)))
     = length (compiledCode (exampleProject True) cycleProgram) \<and>
   ''a.ts'' \<in> doneSet \<lparr>doneSet = {''a.ts''}, jsStream = [], thrown = None\<rparr> \<and>
   sortedEmit (getSourceFile cycleProgram) [] Map.empty ''a.ts'' (inputFile ''a.js'')
       \<lparr>doneSet = {''a.ts''}, jsStream = [], thrown = None\<rparr>
     = \<lparr>doneSet = {''a.ts''}, jsStream = [], thrown = None\<rparr>"
proof -
  have sorted: "sortOutput (exampleProject True)" by code_simp
  have files: "list_all carriesFile (compileErrors cycleProgram)"
    by (simp add: compileErrors_def cycleProgram_def)
  have refs: "referencedFiles (the (getSourceFile cycleProgram ''a.ts'')) = [''b.ts'']"
    "referencedFiles (the (getSourceFile cycleProgram ''b.ts'')) = [''a.ts'']"
    by (simp_all add: cycleProgram_def sourceFile_def)
  have cc: "map path (compiledCode (exampleProject True) cycleProgram) = [''a.js'', ''b.js'']"
    by code_simp
  have out: "map path (jsPushed (compile exampleLibs (\<lambda>roots. cycleProgram) (exampleProject True)))
     = [''b.js'', ''a.js'']"
    by code_simp
  from sorted_emission_each_artifact_once
         [where createProgram = "\<lambda>roots. cycleProgram" and libs = exampleLibs
            and n = "''a.ts''" and st = "\<lparr>doneSet = {''a.ts''}, jsStream = [], thrown = None\<rparr>"
            and gsf = "getSourceFile cycleProgram" and outJS = "[]" and smaps = Map.empty
            and f = "inputFile ''a.js''",
          OF sorted refl refl]
  show ?thesis
    using sorted files cycle_sources refs cc out by (simp add: list_all_iff)
qed

section \<open>Empty input, diagnostics and syntax errors\<close>

text \<open>
  Claim C6. When no source file was supplied, \<^verbatim>\<open>inputDone\<close> only finishes the output:
  nothing is written, no error or diagnostic is reported, neither the host nor the toolchain
  is touched, and the cached output is not replayed, whatever the cache holds.
\<close>

theorem inputDone_empty_input:
  "firstSourceFile (input p) = None \<Longrightarrow>
     inputDone ts p = [OutputFinish] \<and>
     outputWrites (inputDone ts p) = [] \<and>
     outputErrors (inputDone ts p) = [] \<and>
     outputDiagnostics (inputDone ts p) = [] \<and>
     list_all (\<lambda>e. \<not> isToolchainEffect e) (inputDone ts p) \<and>
     inputDone ts p \<noteq> replay (previousOutput p)"
proof -
  assume "firstSourceFile (input p) = None"
  then have eq: "inputDone ts p = [OutputFinish]" by (simp add: inputDone_def)
  have "[OutputFinish] \<noteq> replay (previousOutput p)"
    using replay_no_finish [of "previousOutput p"] by (metis list.set_intros(1))
  then show ?thesis unfolding eq by simp
qed

theorem inputDone_empty_input_witness:
  "firstSourceFile (input emptyProject) = None \<and>
   files (previousOutput emptyProject) \<noteq> [] \<and>
   inputDone exampleToolchain emptyProject = [OutputFinish] \<and>
   outputWrites (inputDone exampleToolchain emptyProject) = []"
  using inputDone_empty_input [of emptyProject exampleToolchain]
  by (simp add: emptyProject_def exampleCache_def)

lemma inputDone_changed:
  "firstSourceFile (input p) \<noteq> None \<Longrightarrow> isChanged (input p) \<Longrightarrow>
     inputDone ts p =
       [HostNew, TsCreateProgram (rootFilenames p), GetDiagnosticsAndEmit] @
       map OutputDiagnostic (fst (ts (rootFilenames p))) @
       map (\<lambda>(k, v). OutputWrite k (Some v)) (snd (ts (rootFilenames p))) @
       [OutputFinish]"
  by (auto simp: inputDone_def Let_def split: prod.splits)

text \<open>
  What holds of the claim on diagnostics: when every diagnostic carries its file, each one
  is converted and handed to the callback, in order, and the emission follows; without
  \<^verbatim>\<open>sortOutput\<close> every compiled artifact is then pushed, in the order of the host, and
  nothing is thrown.
\<close>

lemma diagnostics_with_files_reported:
  assumes "program = createProgram (getCurrentFilenames p)"
    and "list_all carriesFile (compileErrors program)"
  shows "map Inr (reported (compile libs createProgram p))
           = map (getError libs p) (compileErrors program)"
    and "declPushed (compile libs createProgram p)
           = List.map_filter (declArtifact p) (compileHostOutput program)"
    and "\<not> sortOutput p \<Longrightarrow>
           jsPushed (compile libs createProgram p)
             = map (emitOf (generatedMaps p program)) (compiledCode p program) \<and>
           raised (compile libs createProgram p) = None"
  using assms by (simp_all add: compile_completed emission_unsorted)

text \<open>
  Claim C8. A diagnostic without a file makes \<^verbatim>\<open>compile\<close> throw: \<^verbatim>\<open>getError\<close> reads
  \<^verbatim>\<open>info.file.filename\<close> unguarded. Here the type checker reports three diagnostics, the second
  without a file, and the emitter has written its artifacts. The first diagnostic reaches the
  callback; the second throws a \<^verbatim>\<open>TypeError\<close> out of \<^verbatim>\<open>compile\<close>; the third never reaches the
  callback and no artifact is pushed to either stream.
\<close>

theorem diagnostic_without_file_aborts_compile:
  "getDiagnostics globalProgram = [] \<and>
   map carriesFile (compileErrors globalProgram) = [True, False, True] \<and>
   map fst (compileHostOutput globalProgram)
     = [''a.js'', ''a.js.map'', ''a.d.ts'', ''b.js'', ''b.js.map'', ''c.js'', ''x.js''] \<and>
   compile exampleLibs (\<lambda>roots. globalProgram) (exampleProject False)
     = \<lparr>calls = [CreateProgram [''a.ts'', ''b.ts'', ''c.ts''], ProgramGetDiagnostics,
                 GetTypeChecker, CheckerGetDiagnostics, CheckerEmitFiles],
        reported = [\<lparr>name = ''TypeScript error'', message = ''b.ts(1,5): 2322 Type mismatch''\<rparr>],
        declPushed = [], jsPushed = [], raised = Some TypeError\<rparr>"
  by code_simp

text \<open>
  Claim C9. When \<^verbatim>\<open>program.getDiagnostics()\<close> is not empty, \<^verbatim>\<open>compile\<close> asks for no type
  checker and never calls \<^verbatim>\<open>emitFiles\<close>; only the syntactic diagnostics are up for reporting
  and no file is pushed to either stream, whatever the emitter would have written. When the
  list is empty, the type checker is created and \<^verbatim>\<open>emitFiles\<close> is called; the diagnostics up
  for reporting are those of the checker and of the emitter, and once they are reported the
  artifacts written by \<^verbatim>\<open>emitFiles\<close> are pushed: the declarations, and the compiled code
  (without \<^verbatim>\<open>sortOutput\<close>, all of it in the order of the host). In both cases the callback
  receives the diagnostics in order, up to the first one without a file, where
  \<^verbatim>\<open>getError\<close> throws.
\<close>

theorem syntax_errors_suppress_emission:
  "program = createProgram (getCurrentFilenames p) \<Longrightarrow> r = compile libs createProgram p \<Longrightarrow>
     (getDiagnostics program \<noteq> [] \<longrightarrow>
        calls r = [CreateProgram (getCurrentFilenames p), ProgramGetDiagnostics] \<and>
        jsPushed r = [] \<and> declPushed r = [] \<and>
        map Inr (reported r)
          = map (getError libs p) (takeWhile carriesFile (getDiagnostics program)) \<and>
        raised r = (if list_all carriesFile (getDiagnostics program) then None else Some TypeError)) \<and>
     (getDiagnostics program = [] \<longrightarrow>
        calls r = [CreateProgram (getCurrentFilenames p), ProgramGetDiagnostics,
                   GetTypeChecker, CheckerGetDiagnostics, CheckerEmitFiles] \<and>
        map Inr (reported r)
          = map (getError libs p)
              (takeWhile carriesFile (checkerGetDiagnostics program @ emitFilesErrors program)) \<and>
        (list_all carriesFile (checkerGetDiagnostics program @ emitFilesErrors program) \<longrightarrow>
           declPushed r = List.map_filter (declArtifact p) (hostOutput (emitWrites program)) \<and>
           jsPushed r = jsStream (emissionOf p program) \<and>
           set (jsPushed r) \<subseteq> emitOf (generatedMaps p program)
                                 ` set (List.map_filter (jsArtifact p) (hostOutput (emitWrites program))) \<and>
           (\<not> sortOutput p \<longrightarrow>
              jsPushed r = map (emitOf (generatedMaps p program))
                             (List.map_filter (jsArtifact p) (hostOutput (emitWrites program))))))"
proof -
  assume pr: "program = createProgram (getCurrentFilenames p)"
    and r: "r = compile libs createProgram p"
  have c: "calls r = compileCalls (getCurrentFilenames p) program"
    unfolding r pr by (rule compile_calls)
  have rep: "map Inr (reported r) = map (getError libs p) (takeWhile carriesFile (compileErrors program))"
    unfolding r pr by (rule compile_reported)
  have bad: "calls r = [CreateProgram (getCurrentFilenames p), ProgramGetDiagnostics] \<and>
        jsPushed r = [] \<and> declPushed r = [] \<and>
        map Inr (reported r)
          = map (getError libs p) (takeWhile carriesFile (getDiagnostics program)) \<and>
        raised r = (if list_all carriesFile (getDiagnostics program) then None else Some TypeError)"
    if syn: "getDiagnostics program \<noteq> []"
  proof -
    have errs: "compileErrors program = getDiagnostics program"
      using syn by (simp add: compileErrors_def)
    have calls: "calls r = [CreateProgram (getCurrentFilenames p), ProgramGetDiagnostics]"
      unfolding c using syn by (simp add: compileCalls_def)
    show ?thesis
    proof (cases "list_all carriesFile (getDiagnostics program)")
      case True
      then have all: "list_all carriesFile (compileErrors (createProgram (getCurrentFilenames p)))"
        using errs pr by simp
      have empty: "compileHostOutput program = []" "emissionOf p program = emptyEmitState"
        using emission_syntax_errors [OF syn, of p] by simp_all
      have "declPushed r = List.map_filter (declArtifact p) (compileHostOutput program)"
        "jsPushed r = jsStream (emissionOf p program)"
        "raised r = thrown (emissionOf p program)"
        unfolding r pr using all by (simp_all add: compile_completed)
      then show ?thesis
        using calls rep errs True empty by (simp add: emptyEmitState_def)
    next
      case False
      then have "\<not> list_all carriesFile (compileErrors (createProgram (getCurrentFilenames p)))"
        using errs pr by simp
      then have "raised r = Some TypeError" "jsPushed r = []" "declPushed r = []"
        unfolding r by (simp_all add: compile_aborted)
      then show ?thesis
        using calls rep errs False by simp
    qed
  qed
  have good: "calls r = [CreateProgram (getCurrentFilenames p), ProgramGetDiagnostics,
                   GetTypeChecker, CheckerGetDiagnostics, CheckerEmitFiles] \<and>
        map Inr (reported r)
          = map (getError libs p)
              (takeWhile carriesFile (checkerGetDiagnostics program @ emitFilesErrors program)) \<and>
        (list_all carriesFile (checkerGetDiagnostics program @ emitFilesErrors program) \<longrightarrow>
           declPushed r = List.map_filter (declArtifact p) (hostOutput (emitWrites program)) \<and>
           jsPushed r = jsStream (emissionOf p program) \<and>
           set (jsPushed r) \<subseteq> emitOf (generatedMaps p program)
                                 ` set (List.map_filter (jsArtifact p) (hostOutput (emitWrites program))) \<and>
           (\<not> sortOutput p \<longrightarrow>
              jsPushed r = map (emitOf (generatedMaps p program))
                             (List.map_filter (jsArtifact p) (hostOutput (emitWrites program)))))"
    if syn: "getDiagnostics program = []"
  proof -
    have errs: "compileErrors program = checkerGetDiagnostics program @ emitFilesErrors program"
      using syn by (simp add: compileErrors_def)
    have out: "compileHostOutput program = hostOutput (emitWrites program)"
      using syn by (simp add: compileHostOutput_def)
    have calls: "calls r = [CreateProgram (getCurrentFilenames p), ProgramGetDiagnostics,
                   GetTypeChecker, CheckerGetDiagnostics, CheckerEmitFiles]"
      unfolding c using syn by (simp add: compileCalls_def)
    have cc: "compiledCode p program
                = List.map_filter (jsArtifact p) (hostOutput (emitWrites program))"
      unfolding compiledCode_eq out ..
    have pushed: "declPushed r = List.map_filter (declArtifact p) (hostOutput (emitWrites program)) \<and>
           jsPushed r = jsStream (emissionOf p program) \<and>
           set (jsPushed r) \<subseteq> emitOf (generatedMaps p program)
                                 ` set (List.map_filter (jsArtifact p) (hostOutput (emitWrites program))) \<and>
           (\<not> sortOutput p \<longrightarrow>
              jsPushed r = map (emitOf (generatedMaps p program))
                             (List.map_filter (jsArtifact p) (hostOutput (emitWrites program))))"
      if "list_all carriesFile (checkerGetDiagnostics program @ emitFilesErrors program)"
    proof -
      have all: "list_all carriesFile (compileErrors (createProgram (getCurrentFilenames p)))"
        using that errs pr by simp
      have js: "jsPushed r = jsStream (emissionOf p program)"
        and decl: "declPushed r = List.map_filter (declArtifact p) (compileHostOutput program)"
        unfolding r pr using all by (simp_all add: compile_completed)
      show ?thesis
        using js decl out emission_subset [of p program] emission_unsorted [of p program]
        unfolding cc [symmetric] by auto
    qed
    have rep': "map Inr (reported r)
          = map (getError libs p)
              (takeWhile carriesFile (checkerGetDiagnostics program @ emitFilesErrors program))"
      using rep unfolding errs .
    show ?thesis using calls rep' pushed by blast
  qed
  show ?thesis using bad good by blast
qed

theorem syntax_errors_suppress_emission_witness:
  "getDiagnostics brokenProgram \<noteq> [] \<and>
   emitWrites brokenProgram \<noteq> [] \<and>
   list_all carriesFile (getDiagnostics brokenProgram) \<and>
   calls (compile exampleLibs (\<lambda>roots. brokenProgram) (exampleProject False))
     = [CreateProgram [''a.ts'', ''b.ts'', ''c.ts''], ProgramGetDiagnostics] \<and>
   reported (compile exampleLibs (\<lambda>roots. brokenProgram) (exampleProject False))
     = [\<lparr>name = ''TypeScript error'', message = ''a.ts(1,1): 1005 ; expected''\<rparr>] \<and>
   jsPushed (compile exampleLibs (\<lambda>roots. brokenProgram) (exampleProject False)) = [] \<and>
   declPushed (compile exampleLibs (\<lambda>roots. brokenProgram) (exampleProject False)) = [] \<and>
   raised (compile exampleLibs (\<lambda>roots. brokenProgram) (exampleProject False)) = None \<and>
   getDiagnostics chainProgram = [] \<and>
   list_all carriesFile (checkerGetDiagnostics chainProgram @ emitFilesErrors chainProgram) \<and>
   \<not> sortOutput (exampleProject False) \<and>
   calls (compile exampleLibs (\<lambda>roots. chainProgram) (exampleProject False))
     = [CreateProgram [''a.ts'', ''b.ts'', ''c.ts''], ProgramGetDiagnostics,
        GetTypeChecker, CheckerGetDiagnostics, CheckerEmitFiles] \<and>
   map path (jsPushed (compile exampleLibs (\<lambda>roots. chainProgram) (exampleProject False)))
     = [''a.js'', ''b.js'', ''c.js''] \<and>
   map path (declPushed (compile exampleLibs (\<lambda>roots. chainProgram) (exampleProject False)))
     = [''a.d.ts'']"
proof -
  have bad: "getDiagnostics brokenProgram \<noteq> []" "emitWrites brokenProgram \<noteq> []"
    "list_all carriesFile (getDiagnostics brokenProgram)"
    by (simp_all add: brokenProgram_def chainProgram_def carriesFile_def)
  have good: "getDiagnostics chainProgram = []"
    "list_all carriesFile (checkerGetDiagnostics chainProgram @ emitFilesErrors chainProgram)"
    by (simp_all add: chainProgram_def carriesFile_def)
  have unsorted: "\<not> sortOutput (exampleProject False)" by code_simp
  have names: "getCurrentFilenames (exampleProject False) = [''a.ts'', ''b.ts'', ''c.ts'']"
    by code_simp
  have rep: "reported (compile exampleLibs (\<lambda>roots. brokenProgram) (exampleProject False))
     = [\<lparr>name = ''TypeScript error'', message = ''a.ts(1,1): 1005 ; expected''\<rparr>]"
    by code_simp
  have js: "map path (jsPushed (compile exampleLibs (\<lambda>roots. chainProgram) (exampleProject False)))
     = [''a.js'', ''b.js'', ''c.js'']"
    by code_simp
  have decl: "map path (declPushed (compile exampleLibs (\<lambda>roots. chainProgram) (exampleProject False)))
     = [''a.d.ts'']"
    by code_simp
  from syntax_errors_suppress_emission
         [where createProgram = "\<lambda>roots. brokenProgram" and p = "exampleProject False"
            and libs = exampleLibs, OF refl refl]
       syntax_errors_suppress_emission
         [where createProgram = "\<lambda>roots. chainProgram" and p = "exampleProject False"
            and libs = exampleLibs, OF refl refl]
  show ?thesis using bad good unsorted names rep js decl by simp
qed

section \<open>Declarations, unmatched artifacts and source maps\<close>

text \<open>
  Claim C10. Every file pushed to the declaration stream is a \<^verbatim>\<open>.d.ts\<close> artifact whose
  content went through \<^verbatim>\<open>removeSourceMapComment\<close>, and the loop over \<^verbatim>\<open>host.output\<close> pushes
  every \<^verbatim>\<open>.d.ts\<close> artifact with a matching input that way; \<^verbatim>\<open>compile\<close> reaches that loop
  when the loop over the diagnostics completes. So a declaration artifact that ends in a last
  line and a final newline is pushed without that last line, although it is a declaration
  and not a source-map comment.
\<close>

theorem declarations_are_stripped:
  "program = createProgram (getCurrentFilenames p) \<Longrightarrow> r = compile libs createProgram p \<Longrightarrow>
   pushed = declStream (collect p (compileHostOutput program) emptyCollected) \<Longrightarrow>
     (\<forall>f \<in> set (declPushed r). \<exists>data.
        (path f, data) \<in> set (compileHostOutput program) \<and>
        substr (path f) (- 5) = ''.d.ts'' \<and>
        contents f = removeSourceMapComment data) \<and>
     (\<forall>fname data original.
        (fname, data) \<in> set (compileHostOutput program) \<and>
        substr fname (- 5) = ''.d.ts'' \<and>
        map_of (currentFiles p) (getOriginalName fname) = Some original \<longrightarrow>
          newFile fname data original \<in> set pushed) \<and>
     (\<forall>fname pre line original.
        (fname, pre @ newline # line @ [newline]) \<in> set (compileHostOutput program) \<and>
        newline \<notin> set line \<and>
        substr fname (- 5) = ''.d.ts'' \<and>
        map_of (currentFiles p) (getOriginalName fname) = Some original \<longrightarrow>
          (\<exists>f \<in> set pushed. path f = fname \<and> contents f = pre @ [newline])) \<and>
     (list_all carriesFile (compileErrors program) \<longrightarrow> declPushed r = pushed)"
proof -
  assume pr: "program = createProgram (getCurrentFilenames p)"
    and r: "r = compile libs createProgram p"
    and pu: "pushed = declStream (collect p (compileHostOutput program) emptyCollected)"
  have d: "pushed = List.map_filter (declArtifact p) (compileHostOutput program)"
    unfolding pu by (simp add: collect_declStream emptyCollected_def)
  have cases: "declPushed r = [] \<or> declPushed r = pushed"
    unfolding r pr d by (rule compile_declPushed_cases)
  have link: "declPushed r = pushed" if "list_all carriesFile (compileErrors program)"
    using that unfolding r pr d by (simp add: compile_completed)
  have one: "\<exists>data. (path f, data) \<in> set (compileHostOutput program) \<and>
        substr (path f) (- 5) = ''.d.ts'' \<and> contents f = removeSourceMapComment data"
    if "f \<in> set (declPushed r)" for f
  proof -
    from that have "f \<in> set pushed" using cases by auto
    then obtain k data where kd: "(k, data) \<in> set (compileHostOutput program)"
      "declArtifact p (k, data) = Some f"
      unfolding d by (auto simp: map_filter_mem)
    from declArtifact_Some [OF kd(2)] kd(1) show ?thesis by auto
  qed
  have two: "newFile fname data original \<in> set pushed"
    if "(fname, data) \<in> set (compileHostOutput program)" "substr fname (- 5) = ''.d.ts''"
      "map_of (currentFiles p) (getOriginalName fname) = Some original"
    for fname data original
  proof -
    have "declArtifact p (fname, data) = Some (newFile fname data original)"
      using that(2,3) declaration_not_js [OF that(2)] by (simp add: declArtifact_def)
    then show ?thesis unfolding d using that(1) by (auto simp: map_filter_mem)
  qed
  have three: "\<exists>f \<in> set pushed. path f = fname \<and> contents f = pre @ [newline]"
    if "(fname, pre @ newline # line @ [newline]) \<in> set (compileHostOutput program)"
      "newline \<notin> set line" "substr fname (- 5) = ''.d.ts''"
      "map_of (currentFiles p) (getOriginalName fname) = Some original"
    for fname pre line original
  proof -
    have "newFile fname (pre @ newline # line @ [newline]) original \<in> set pushed"
      using that(1,3,4) by (rule two)
    moreover have "contents (newFile fname (pre @ newline # line @ [newline]) original)
        = pre @ [newline]"
      using that(2) by (simp add: newFile_def removeSourceMapComment_two_lines)
    moreover have "path (newFile fname (pre @ newline # line @ [newline]) original) = fname"
      by (simp add: newFile_def)
    ultimately show ?thesis by blast
  qed
  show ?thesis using one two three link by blast
qed

theorem declarations_are_stripped_witness:
  "(''a.d.ts'', ''declare var a;'' @ newline # ''declare var b;'' @ [newline])
     \<in> set (compileHostOutput chainProgram) \<and>
   newline \<notin> set ''declare var b;'' \<and>
   substr ''a.d.ts'' (- 5) = ''.d.ts'' \<and>
   list_all carriesFile (compileErrors chainProgram) \<and>
   map (\<lambda>f. (path f, contents f))
     (declPushed (compile exampleLibs (\<lambda>roots. chainProgram) (exampleProject False)))
     = [(''a.d.ts'', ''declare var a;'' @ [newline])]"
proof -
  let ?pushed = "declStream (collect (exampleProject False) (compileHostOutput chainProgram)
                   emptyCollected)"
  have mem: "(''a.d.ts'', ''declare var a;'' @ newline # ''declare var b;'' @ [newline])
     \<in> set (compileHostOutput chainProgram)"
    by code_simp
  have nl: "newline \<notin> set ''declare var b;''" by (simp add: newline_def)
  have suf: "substr ''a.d.ts'' (- 5) = ''.d.ts''" by code_simp
  have files: "list_all carriesFile (compileErrors chainProgram)"
    by (simp add: compileErrors_def chainProgram_def carriesFile_def)
  obtain original where orig:
    "map_of (currentFiles (exampleProject False)) (getOriginalName ''a.d.ts'') = Some original"
  proof -
    have "map_of (currentFiles (exampleProject False)) (getOriginalName ''a.d.ts'') \<noteq> None"
      by code_simp
    then show ?thesis using that by blast
  qed
  have one: "length ?pushed = 1"
    by code_simp
  note inst = declarations_are_stripped
         [where createProgram = "\<lambda>roots. chainProgram" and p = "exampleProject False"
            and libs = exampleLibs, OF refl refl refl]
  from inst mem nl suf orig
  obtain f where f: "f \<in> set ?pushed" "path f = ''a.d.ts''"
    "contents f = ''declare var a;'' @ [newline]"
    by blast
  from one f(1) have "?pushed = [f]"
    by (cases ?pushed) auto
  moreover have "declPushed (compile exampleLibs (\<lambda>roots. chainProgram) (exampleProject False))
      = ?pushed"
    using inst files by blast
  ultimately show ?thesis using mem nl suf files f(2,3) by simp
qed

text \<open>
  Claim C7. Every file that \<^verbatim>\<open>compile\<close> pushes to either stream comes from an artifact
  whose original name is among the current files; and an artifact whose original name is not
  among them leaves the loop over \<^verbatim>\<open>host.output\<close> exactly as if it were absent: no file, no
  source map, no error.
\<close>

theorem unmatched_artifacts_are_dropped:
  "r = compile libs createProgram p \<Longrightarrow>
     (\<forall>f \<in> set (jsPushed r) \<union> set (declPushed r).
        map_of (currentFiles p) (getOriginalName (path f)) \<noteq> None) \<and>
     (map_of (currentFiles p) (getOriginalName fname) = None \<longrightarrow>
        collect p (xs @ (fname, data) # ys) acc = collect p (xs @ ys) acc)"
proof -
  assume r: "r = compile libs createProgram p"
  let ?program = "createProgram (getCurrentFilenames p)"
  have js: "map_of (currentFiles p) (getOriginalName (path f)) \<noteq> None"
    if "f \<in> set (jsPushed r)" for f
  proof -
    from that have "f \<in> set (jsStream (emissionOf p ?program))"
      unfolding r using compile_jsPushed_cases [of libs createProgram p] by auto
    then obtain g where g: "g \<in> set (compiledCode p ?program)"
      "f = emitOf (generatedMaps p ?program) g"
      using emission_subset [of p ?program] by auto
    then obtain k d where "jsArtifact p (k, d) = Some g"
      by (auto simp: compiledCode_eq map_filter_mem)
    from jsArtifact_Some [OF this] show ?thesis using g(2) by simp
  qed
  have decl: "map_of (currentFiles p) (getOriginalName (path f)) \<noteq> None"
    if "f \<in> set (declPushed r)" for f
  proof -
    from that have "f \<in> set (List.map_filter (declArtifact p) (compileHostOutput ?program))"
      unfolding r using compile_declPushed_cases [of libs createProgram p] by auto
    then obtain k d where "declArtifact p (k, d) = Some f"
      by (auto simp: map_filter_mem)
    from declArtifact_Some [OF this] show ?thesis by simp
  qed
  show ?thesis using js decl collect_discards by blast
qed

theorem unmatched_artifacts_are_dropped_witness:
  "map_of (currentFiles (exampleProject False)) (getOriginalName ''x.js'') = None \<and>
   (''x.js'', compiled ''X'') \<in> set (compileHostOutput chainProgram) \<and>
   map path (jsPushed (compile exampleLibs (\<lambda>roots. chainProgram) (exampleProject False)))
     = [''a.js'', ''b.js'', ''c.js''] \<and>
   map path (declPushed (compile exampleLibs (\<lambda>roots. chainProgram) (exampleProject False)))
     = [''a.d.ts''] \<and>
   raised (compile exampleLibs (\<lambda>roots. chainProgram) (exampleProject False)) = None \<and>
   collect (exampleProject False) ([(''a.js'', ''A'')] @ (''x.js'', ''X'') # [(''b.js'', ''B'')])
       emptyCollected
     = collect (exampleProject False) ([(''a.js'', ''A'')] @ [(''b.js'', ''B'')]) emptyCollected"
proof -
  have none: "map_of (currentFiles (exampleProject False)) (getOriginalName ''x.js'') = None"
    by code_simp
  have mem: "(''x.js'', compiled ''X'') \<in> set (compileHostOutput chainProgram)"
    by code_simp
  have js: "map path (jsPushed (compile exampleLibs (\<lambda>roots. chainProgram) (exampleProject False)))
     = [''a.js'', ''b.js'', ''c.js'']"
    by code_simp
  have decl: "map path (declPushed (compile exampleLibs (\<lambda>roots. chainProgram) (exampleProject False)))
     = [''a.d.ts'']"
    by code_simp
  have ra: "raised (compile exampleLibs (\<lambda>roots. chainProgram) (exampleProject False)) = None"
    by code_simp
  from unmatched_artifacts_are_dropped
         [where createProgram = "\<lambda>roots. chainProgram" and p = "exampleProject False"
            and libs = exampleLibs and fname = "''x.js''" and xs = "[(''a.js'', ''A'')]"
            and data = "''X''" and ys = "[(''b.js'', ''B'')]" and acc = emptyCollected,
          OF refl]
  show ?thesis using none mem js decl ra by blast
qed

lemma sourcemap_never_applied:
  "set (jsPushed (compile libs createProgram p))
     \<subseteq> set (compiledCode p (createProgram (getCurrentFilenames p)))"
proof -
  let ?program = "createProgram (getCurrentFilenames p)"
  have "emitOf (generatedMaps p ?program) g = g" if "g \<in> set (compiledCode p ?program)" for g
    using generatedMaps_miss [OF that] by (simp add: emitOf_def applyMap_def)
  then have "set (jsStream (emissionOf p ?program)) \<subseteq> set (compiledCode p ?program)"
    using emission_subset [of p ?program] by force
  then show ?thesis
    using compile_jsPushed_cases [of libs createProgram p] by auto
qed

text \<open>
  Claim C4. The generated map is stored under the name of the map artifact
  (\<^verbatim>\<open>a.js.map\<close>) but looked up under the original name (\<^verbatim>\<open>a.ts\<close>), so the lookup in
  \<^verbatim>\<open>emit\<close> finds nothing: the map that the toolchain produced for \<^verbatim>\<open>a.js\<close> is held in
  the table, yet the file is pushed with the inbound map only, or with none, with and without
  \<^verbatim>\<open>sortOutput\<close>. \<open>sourcemap_never_applied\<close> shows the same for every input.
\<close>

theorem generated_map_is_not_applied:
  "generatedMaps inboundProject chainProgram ''a.js.map'' = Some ''{a}'' \<and>
   map (\<lambda>f. (path f, sourceMap f))
     (jsPushed (compile exampleLibs (\<lambda>roots. chainProgram) inboundProject))
     = [(''a.js'', Some (Inbound ''{in}''))] \<and>
   map (\<lambda>f. (path f, sourceMap f))
     (jsPushed (compile exampleLibs (\<lambda>roots. chainProgram) (exampleProject False)))
     = [(''a.js'', None), (''b.js'', None), (''c.js'', None)] \<and>
   map (\<lambda>f. (path f, sourceMap f))
     (jsPushed (compile exampleLibs (\<lambda>roots. chainProgram) (exampleProject True)))
     = [(''c.js'', None), (''b.js'', None), (''a.js'', None)]"
  by code_simp

end
